theory Spec2Isabelle
  imports Complex_Main
begin

section \<open>Chorus kernel: data model\<close>

text \<open>
  The sources hold four versions of the C++ class \<open>Kernel\<close>:
  \<^item> the N-oscillator kernel printed in \<open>src/README.md\<close> (functions \<open>initialize\<close>,
    \<open>generate\<close>, \<open>writeSample\<close>, \<open>calcTap\<close>, \<open>calcTaps\<close>, \<open>calcDisplacement\<close>,
    \<open>doRendering\<close>, \<open>doRenderingStateChanged\<close>); it is embedded under the source's names;
  \<^item> the N-oscillator kernel of \<open>src/unnamed/part_000\<close>, whose \<open>initialize\<close>, \<open>generate\<close>,
    \<open>writeSample\<close>, \<open>calcTap\<close>, \<open>calcTaps\<close> and \<open>calcDisplacement\<close> are the same text.
    Its constructor registers the six parameters with the base class and its
    \<open>doRenderingStateChanged\<close> is an empty hook; the base class is not among the sources,
    so what that version does with its parameters when the rendering state changes is not
    embedded;
  \<^item> the single-oscillator kernel of \<open>src/Sources/Kernel/C++/Kernel.hpp\<close>
    (prefix \<open>Kernel_hpp_\<close>);
  \<^item> the single-oscillator kernel of \<open>src/unnamed/part_001\<close> (prefix \<open>part_001_\<close>).

  \<open>AUValue\<close> (a C++ \<open>float\<close>) and \<open>double\<close> are both read as \<open>real\<close>: the development is
  about which expression is computed and in which order state is read and written, not about
  rounding. The one place where real arithmetic would hide what the program does, the
  division by the oscillator count in \<open>generate\<close>, is written out: its result is
  \<open>None\<close> when the divisor is zero (the float program yields \<open>0.0 / 0 = NaN\<close> there).
  A failing \<open>assert\<close> and an index past the end of \<open>delayLines_\<close> are error values.
  A C++ member \<open>rate_\<close> is the field \<open>rate\<close> here: a name cannot end in an underscore.
\<close>

datatype error = AssertionFailed | IndexOutOfRange

subsection \<open>Ramped parameters\<close>

text \<open>
  Modelled from the spec: the class \<open>DSPHeaders::Parameters::RampingParameter\<close> (header
  \<open>DSPHeaders/...Parameter.hpp\<close>, not among the sources). The spec gives it a current
  value, a target value and a remaining ramp duration in samples.
\<close>

record RampingParameter =
  current :: real
  target :: real
  remaining :: nat

text \<open>Modelled from the spec: a parameter is constructed with a default value, settled.\<close>

definition RampingParameter_init :: "real \<Rightarrow> RampingParameter" where
  "RampingParameter_init v = \<lparr>current = v, target = v, remaining = 0\<rparr>"

text \<open>
  Modelled from the spec: \<open>set(targetValue, rampDurationSamples)\<close> begins (or restarts) a
  ramp toward the target; with duration 0 the value snaps immediately.
\<close>

definition param_set :: "real \<Rightarrow> nat \<Rightarrow> RampingParameter \<Rightarrow> RampingParameter" where
  "param_set targetValue rampDurationSamples p =
     (if rampDurationSamples = 0
      then \<lparr>current = targetValue, target = targetValue, remaining = 0\<rparr>
      else p\<lparr>target := targetValue, remaining := rampDurationSamples\<rparr>)"

text \<open>
  Modelled from the spec: \<open>get()\<close> returns the settled target value irrespective of ramp
  state.
\<close>

definition param_get :: "RampingParameter \<Rightarrow> real" where
  "param_get p = target p"

text \<open>
  Modelled from the spec: \<open>frameValue()\<close> returns the interpolated value for the next sample
  and advances the ramp state by one sample; the interpolation is linear and reaches the
  target exactly when the remaining duration is used up, after which nothing changes.
\<close>

definition frameValue :: "RampingParameter \<Rightarrow> real \<times> RampingParameter" where
  "frameValue p =
     (if remaining p = 0 then (current p, p)
      else (current p,
            p\<lparr>current := current p + (target p - current p) / real (remaining p),
              remaining := remaining p - 1\<rparr>))"


text \<open>A parameter with no ramp in progress: nothing remains and current equals target.\<close>

definition settled :: "RampingParameter \<Rightarrow> bool" where
  "settled p = (remaining p = 0 \<and> current p = target p)"

text \<open>
  Modelled from the spec: the percentage specialisation takes 0 to 100 from the host and
  keeps 0.0 to 1.0 internally; \<open>normalized()\<close> returns the internal scale, \<open>get()\<close> the
  host's scale.
\<close>

definition Percentage_set :: "real \<Rightarrow> nat \<Rightarrow> RampingParameter \<Rightarrow> RampingParameter" where
  "Percentage_set v n p = param_set (v / 100) n p"

definition Percentage_get :: "RampingParameter \<Rightarrow> real" where
  "Percentage_get p = param_get p * 100"

definition Percentage_normalized :: "RampingParameter \<Rightarrow> real" where
  "Percentage_normalized p = param_get p"

text \<open>Modelled from the spec: the millisecond specialisation keeps raw milliseconds.\<close>

definition Milliseconds_set :: "real \<Rightarrow> nat \<Rightarrow> RampingParameter \<Rightarrow> RampingParameter" where
  "Milliseconds_set v n p = param_set v n p"

definition Milliseconds_get :: "RampingParameter \<Rightarrow> real" where
  "Milliseconds_get p = param_get p"

text \<open>
  Modelled from the spec: the boolean specialisation stores a float and \<open>get()\<close> returns
  the boolean given by a \<open>> 0.5\<close> threshold on it.
\<close>

definition Bool_set :: "real \<Rightarrow> nat \<Rightarrow> RampingParameter \<Rightarrow> RampingParameter" where
  "Bool_set v n p = param_set v n p"

definition Bool_get :: "RampingParameter \<Rightarrow> bool" where
  "Bool_get p = (param_get p > 1 / 2)"

text \<open>
  The values \<open>frameValue\<close> returns over \<open>n\<close> consecutive samples, and the parameter after
  them.
\<close>

fun frameValues :: "nat \<Rightarrow> RampingParameter \<Rightarrow> real list" where
  "frameValues 0 p = []"
| "frameValues (Suc n) p = fst (frameValue p) # frameValues n (snd (frameValue p))"

fun afterFrames :: "nat \<Rightarrow> RampingParameter \<Rightarrow> RampingParameter" where
  "afterFrames 0 p = p"
| "afterFrames (Suc n) p = afterFrames n (snd (frameValue p))"

subsection \<open>Oscillators and delay lines: the interface the kernel uses\<close>

text \<open>
  \<open>DSPHeaders::LFO\<close> and \<open>DSPHeaders::DelayBuffer\<close> belong to a library that is not among
  the sources. The kernel's functions take their member functions as parameters: a record
  of operations over an arbitrary oscillator state \<open>'lfo\<close> and delay-line state \<open>'dl\<close>.
\<close>

datatype LFOWaveform = sinusoid | triangle

datatype Interpolator = linearInterpolator | cubic4thOrder

record 'lfo LFO_ops =
  lfo_new :: "'lfo"
  lfo_setSampleRate :: "real \<Rightarrow> 'lfo \<Rightarrow> 'lfo"
  lfo_setWaveform :: "LFOWaveform \<Rightarrow> 'lfo \<Rightarrow> 'lfo"
  lfo_setFrequency :: "real \<Rightarrow> nat \<Rightarrow> 'lfo \<Rightarrow> 'lfo"
  lfo_setPhase :: "real \<Rightarrow> 'lfo \<Rightarrow> 'lfo"
  lfo_value :: "'lfo \<Rightarrow> real"
  lfo_quadPhaseValue :: "'lfo \<Rightarrow> real"
  lfo_increment :: "'lfo \<Rightarrow> 'lfo"

record 'dl Delay_ops =
  dl_new :: "real \<Rightarrow> Interpolator \<Rightarrow> 'dl"
  dl_read :: "'dl \<Rightarrow> real \<Rightarrow> real"
  dl_write :: "real \<Rightarrow> 'dl \<Rightarrow> 'dl"

subsection \<open>A reference oscillator and delay line\<close>

text \<open>
  Modelled from the spec: an oscillator with a waveform kind, a sample rate, a ramped
  per-sample phase increment and a phase accumulator in \<open>[0, 1)\<close>. The spec fixes the
  waveforms only up to "trigonometric" and "piecewise linear, continuous, period 1, range
  \<open>[-1, 1]\<close>"; the two below are such waveforms. This instance is used only to run the
  kernel on concrete inputs.
\<close>

record LFO =
  sampleRate :: real
  waveform :: LFOWaveform
  phaseIncrement :: RampingParameter
  phase :: real

text \<open>Modelled from the spec: the waveform evaluated at a phase in \<open>[0, 1)\<close>.\<close>

definition waveformValue :: "LFOWaveform \<Rightarrow> real \<Rightarrow> real" where
  "waveformValue w ph =
     (case w of
        sinusoid \<Rightarrow> sin (2 * pi * ph)
      | triangle \<Rightarrow>
          (if ph < 1 / 4 then 4 * ph else if ph < 3 / 4 then 2 - 4 * ph else 4 * ph - 4))"

text \<open>Modelled from the spec: the member functions of the oscillator.\<close>

definition LFO_ops :: "LFO LFO_ops" where
  "LFO_ops =
     \<lparr>lfo_new = \<lparr>sampleRate = 44100, waveform = sinusoid,
                  phaseIncrement = RampingParameter_init 0, phase = 0\<rparr>,
      lfo_setSampleRate = (\<lambda>sr l. l\<lparr>sampleRate := sr\<rparr>),
      lfo_setWaveform = (\<lambda>w l. l\<lparr>waveform := w\<rparr>),
      lfo_setFrequency =
        (\<lambda>hz n l. l\<lparr>phaseIncrement := param_set (hz / sampleRate l) n (phaseIncrement l)\<rparr>),
      lfo_setPhase = (\<lambda>f l. l\<lparr>phase := f\<rparr>),
      lfo_value = (\<lambda>l. waveformValue (waveform l) (phase l)),
      lfo_quadPhaseValue = (\<lambda>l. waveformValue (waveform l) (frac (phase l + 1 / 4))),
      lfo_increment =
        (\<lambda>l. l\<lparr>phase := frac (phase l + fst (frameValue (phaseIncrement l))),
               phaseIncrement := snd (frameValue (phaseIncrement l))\<rparr>)\<rparr>"

text \<open>
  Modelled from the spec: a circular sample buffer of fixed capacity with a write cursor;
  \<open>write\<close> stores at the cursor and advances it circularly, \<open>read\<close> interpolates at an
  offset behind the cursor from the nearest stored samples (four for the cubic kind; the
  spec leaves the polynomial open, the Lagrange form is taken here). This instance is used
  only to run the kernel on concrete inputs.
\<close>

record DelayBuffer =
  interpolator :: Interpolator
  storage :: "real list"
  writePos :: nat

text \<open>Modelled from the spec: the sample written \<open>k + 1\<close> writes ago.\<close>

definition DelayBuffer_at :: "DelayBuffer \<Rightarrow> nat \<Rightarrow> real" where
  "DelayBuffer_at b k =
     (let n = length (storage b)
      in if n = 0 then 0 else storage b ! ((writePos b + n - 1 - k mod n) mod n))"

text \<open>Modelled from the spec: the member functions of the delay line.\<close>

definition DelayBuffer_read :: "DelayBuffer \<Rightarrow> real \<Rightarrow> real" where
  "DelayBuffer_read b offset =
     (let i = nat \<lfloor>offset\<rfloor>;
          f = offset - of_int \<lfloor>offset\<rfloor>;
          n = length (storage b);
          y0 = DelayBuffer_at b (i + n - 1);
          y1 = DelayBuffer_at b i;
          y2 = DelayBuffer_at b (i + 1);
          y3 = DelayBuffer_at b (i + 2)
      in case interpolator b of
           linearInterpolator \<Rightarrow> (1 - f) * y1 + f * y2
         | cubic4thOrder \<Rightarrow>
             y0 * (- f * (f - 1) * (f - 2) / 6) + y1 * ((f + 1) * (f - 1) * (f - 2) / 2)
             + y2 * (- (f + 1) * f * (f - 2) / 2) + y3 * ((f + 1) * f * (f - 1) / 6))"

definition DelayBuffer_write :: "real \<Rightarrow> DelayBuffer \<Rightarrow> DelayBuffer" where
  "DelayBuffer_write x b =
     (if storage b = [] then b
      else b\<lparr>storage := (storage b)[writePos b := x],
             writePos := (writePos b + 1) mod length (storage b)\<rparr>)"

definition DelayBuffer_ops :: "DelayBuffer Delay_ops" where
  "DelayBuffer_ops =
     \<lparr>dl_new = (\<lambda>size kind. \<lparr>interpolator = kind, storage = replicate (nat \<lfloor>size\<rfloor>) 0,
                               writePos = 0\<rparr>),
      dl_read = DelayBuffer_read,
      dl_write = DelayBuffer_write\<rparr>"

subsection \<open>Kernel state\<close>

text \<open>
  The members every version of the class has: the six parameters, the sample-rate factor
  and one delay line per channel.
\<close>

record 'dl KernelCore =
  rate :: RampingParameter
  depth :: RampingParameter
  delay :: RampingParameter
  dryMix :: RampingParameter
  wetMix :: RampingParameter
  odd90 :: RampingParameter
  samplesPerMillisecond :: real
  delayLines :: "'dl list"

text \<open>
  The N-oscillator kernel (\<open>src/README.md\<close> and \<open>src/unnamed/part_000\<close>):
  \<open>std::array<LFO, MAX_LFOS> lfos_\<close> and \<open>std::array<std::tuple<AUValue, AUValue>, MAX_LFOS>
  taps_\<close> are lists; the constructor gives them \<open>MAX_LFOS\<close> elements.
\<close>

record ('lfo, 'dl) Kernel = "'dl KernelCore" +
  lfoCount :: nat
  maxDelayMilliseconds :: real
  lfos :: "'lfo list"
  taps :: "(real \<times> real) list"
  name :: string

text \<open>The single-oscillator kernels (\<open>Kernel.hpp\<close> and \<open>src/unnamed/part_001\<close>).\<close>

record ('lfo, 'dl) MonoKernel = "'dl KernelCore" +
  lfo :: 'lfo
  rampRemaining :: nat

definition MAX_LFOS :: nat where
  "MAX_LFOS = 50"

text \<open>What the array types and the constructor's assertion guarantee.\<close>

definition Kernel_wf :: "('lfo, 'dl) Kernel \<Rightarrow> bool" where
  "Kernel_wf k =
     (length (lfos k) = MAX_LFOS \<and> length (taps k) = MAX_LFOS \<and> lfoCount k \<le> MAX_LFOS)"

subsection \<open>The N-oscillator kernel\<close>

text \<open>
  The constructor (\<open>src/README.md\<close> lines 53-58, \<open>src/unnamed/part_000\<close> lines 38-49):
  \<open>assert(lfoCount <= MAX_LFOS)\<close>, nothing else is checked. The parameters are default
  constructed; \<open>samplesPerMillisecond_\<close> has no initialiser in the source and is written
  by \<open>initialize\<close> before any use, it is 0 here.
\<close>

definition Kernel_new :: "'lfo LFO_ops \<Rightarrow> string \<Rightarrow> nat \<Rightarrow> error + ('lfo, 'dl) Kernel" where
  "Kernel_new ops nm lfoCount' =
     (if lfoCount' \<le> MAX_LFOS
      then Inr \<lparr>rate = RampingParameter_init 0, depth = RampingParameter_init 0,
                delay = RampingParameter_init 0, dryMix = RampingParameter_init 0,
                wetMix = RampingParameter_init 0, odd90 = RampingParameter_init 0,
                samplesPerMillisecond = 0, delayLines = [],
                lfoCount = lfoCount', maxDelayMilliseconds = 0,
                lfos = replicate MAX_LFOS (lfo_new ops),
                taps = replicate MAX_LFOS (0, 0), name = nm\<rparr>
      else Inl AssertionFailed)"

text \<open>
  \<open>initialize\<close> (\<open>src/README.md\<close> lines 105-123, \<open>src/unnamed/part_000\<close> lines 88-106).
  The loop runs over all of \<open>lfos_\<close>; \<open>index\<close> is an \<open>int\<close> and \<open>lfos_.size()\<close> a
  \<open>size_t\<close>, so \<open>index / lfos_.size()\<close> is an integer division, converted to \<open>AUValue\<close>
  only when it is passed to \<open>setPhase\<close>.
\<close>

definition initialize_lfo :: "'lfo LFO_ops \<Rightarrow> real \<Rightarrow> real \<Rightarrow> nat \<Rightarrow> nat \<Rightarrow> 'lfo \<Rightarrow> 'lfo" where
  "initialize_lfo ops sampleRate' rate' size' index osc =
     lfo_setPhase ops (real (index div size'))
       (lfo_setFrequency ops rate' 0
         (lfo_setWaveform ops sinusoid
           (lfo_setSampleRate ops sampleRate' osc)))"

definition initialize ::
  "'lfo LFO_ops \<Rightarrow> 'dl Delay_ops \<Rightarrow> int \<Rightarrow> real \<Rightarrow> real \<Rightarrow> ('lfo, 'dl) Kernel \<Rightarrow> ('lfo, 'dl) Kernel"
where
  "initialize ops dops channelCount sampleRate' maxDelayMilliseconds' k =
     (let spm = sampleRate' / 1000;
          rate' = Milliseconds_get (rate k);
          lfos' = map (\<lambda>index. initialize_lfo ops sampleRate' rate' (length (lfos k)) index
                                  (lfos k ! index)) [0..<length (lfos k)];
          size' = maxDelayMilliseconds' * spm * 2 + 1
      in k\<lparr>maxDelayMilliseconds := maxDelayMilliseconds',
            samplesPerMillisecond := spm,
            lfos := lfos',
            delayLines := replicate (nat channelCount) (dl_new dops size' cubic4thOrder)\<rparr>)"

text \<open>\<open>setRate\<close> (\<open>src/README.md\<close> lines 125-130).\<close>

definition setRate :: "'lfo LFO_ops \<Rightarrow> real \<Rightarrow> nat \<Rightarrow> ('lfo, 'dl) Kernel \<Rightarrow> ('lfo, 'dl) Kernel" where
  "setRate ops rate' rampingDuration k =
     k\<lparr>rate := Milliseconds_set rate' rampingDuration (rate k),
       lfos := map (lfo_setFrequency ops rate' rampingDuration) (lfos k)\<rparr>"


text \<open>
  \<open>generate\<close> (\<open>src/README.md\<close> lines 146-153, \<open>src/unnamed/part_000\<close> lines 127-134): the
  sum of \<open>lfoCount_\<close> reads, at the first component of each tap when \<open>isEven\<close> and at the
  second otherwise, divided by \<open>lfoCount_\<close>. \<open>inputSample\<close> is not used by the source
  either.
\<close>

definition generate :: "'dl Delay_ops \<Rightarrow> ('lfo, 'dl) Kernel \<Rightarrow> real \<Rightarrow> 'dl \<Rightarrow> bool \<Rightarrow> real option" where
  "generate dops k inputSample delayLine isEven =
     (let output = fold (\<lambda>index out.
                      out + dl_read dops delayLine
                              (if isEven then fst (taps k ! index) else snd (taps k ! index)))
                    [0..<lfoCount k] 0
      in if lfoCount k = 0 then None else Some (output / real (lfoCount k)))"

text \<open>
  \<open>writeSample\<close> (\<open>src/README.md\<close> lines 155-162, \<open>src/unnamed/part_000\<close> lines 136-143).
  \<open>ins\<close> is the current frame: the sample \<open>*ins[channel]++\<close> reads for each channel. The
  third argument of \<open>generate\<close> is \<open>channel & 1\<close>, which is true on the odd channels. The
  result holds the updated kernel and the frame written to \<open>outs\<close>.
\<close>

fun writeSample_from ::
  "'dl Delay_ops \<Rightarrow> bool \<Rightarrow> real \<Rightarrow> real \<Rightarrow> nat \<Rightarrow> real list \<Rightarrow> ('lfo, 'dl) Kernel
     \<Rightarrow> error + (('lfo, 'dl) Kernel \<times> real option list)"
where
  "writeSample_from dops odd90' wetMix' dryMix' channel [] k = Inr (k, [])"
| "writeSample_from dops odd90' wetMix' dryMix' channel (inputSample # ins) k =
     (if channel < length (delayLines k)
      then
        (let outputSample = generate dops k inputSample (delayLines k ! channel) (odd channel);
             k' = k\<lparr>delayLines :=
                      (delayLines k)[channel := dl_write dops inputSample (delayLines k ! channel)]\<rparr>
         in case writeSample_from dops odd90' wetMix' dryMix' (Suc channel) ins k' of
              Inl e \<Rightarrow> Inl e
            | Inr (k'', outs) \<Rightarrow>
                Inr (k'', map_option (\<lambda>w. wetMix' * w + dryMix' * inputSample) outputSample # outs))
      else Inl IndexOutOfRange)"

definition writeSample ::
  "'dl Delay_ops \<Rightarrow> real list \<Rightarrow> bool \<Rightarrow> real \<Rightarrow> real \<Rightarrow> ('lfo, 'dl) Kernel
     \<Rightarrow> error + (('lfo, 'dl) Kernel \<times> real option list)"
where
  "writeSample dops ins odd90' wetMix' dryMix' k = writeSample_from dops odd90' wetMix' dryMix' 0 ins k"

text \<open>
  \<open>calcTap\<close> (\<open>src/README.md\<close> lines 164-170, \<open>src/unnamed/part_000\<close> lines 145-151): the
  pair of taps and the oscillator after \<open>increment()\<close>.
\<close>

definition calcTap ::
  "'lfo LFO_ops \<Rightarrow> real \<Rightarrow> 'lfo \<Rightarrow> real \<Rightarrow> real \<Rightarrow> bool \<Rightarrow> (real \<times> real) \<times> 'lfo"
where
  "calcTap ops spm osc nominalMilliseconds displacementMilliseconds odd90' =
     (let evenTap = (nominalMilliseconds + lfo_value ops osc * displacementMilliseconds) * spm;
          oddTap = (if odd90'
                    then (nominalMilliseconds + lfo_quadPhaseValue ops osc * displacementMilliseconds) * spm
                    else evenTap)
      in ((evenTap, oddTap), lfo_increment ops osc))"

text \<open>\<open>calcTaps\<close> (\<open>src/README.md\<close> lines 172-176, \<open>src/unnamed/part_000\<close> lines 153-157).\<close>

definition calcTaps_at ::
  "'lfo LFO_ops \<Rightarrow> real \<Rightarrow> real \<Rightarrow> bool \<Rightarrow> nat \<Rightarrow> ('lfo, 'dl) Kernel \<Rightarrow> ('lfo, 'dl) Kernel"
where
  "calcTaps_at ops nominalMilliseconds displacementMilliseconds odd90' index k =
     (let r = calcTap ops (samplesPerMillisecond k) (lfos k ! index)
                nominalMilliseconds displacementMilliseconds odd90'
      in k\<lparr>lfos := (lfos k)[index := snd r], taps := (taps k)[index := fst r]\<rparr>)"

definition calcTaps ::
  "'lfo LFO_ops \<Rightarrow> real \<Rightarrow> real \<Rightarrow> bool \<Rightarrow> ('lfo, 'dl) Kernel \<Rightarrow> ('lfo, 'dl) Kernel"
where
  "calcTaps ops nominalMilliseconds displacementMilliseconds odd90' k =
     fold (calcTaps_at ops nominalMilliseconds displacementMilliseconds odd90') [0..<lfoCount k] k"

text \<open>\<open>calcDisplacement\<close> (\<open>src/README.md\<close> lines 178-180, \<open>src/unnamed/part_000\<close> lines 159-161).\<close>

definition calcDisplacement :: "('lfo, 'dl) Kernel \<Rightarrow> real \<Rightarrow> real \<Rightarrow> real" where
  "calcDisplacement k nominal displacementFraction =
     (maxDelayMilliseconds k - nominal) * displacementFraction"

text \<open>
  Modelled from the spec: \<open>isRamping()\<close> is inherited from \<open>DSPHeaders::EventProcessor\<close>,
  which is not among the sources; the spec chooses the per-sample strategy when any
  parameter is ramping.
\<close>

definition isRamping :: "('dl, 'z) KernelCore_scheme \<Rightarrow> bool" where
  "isRamping k =
     (0 < remaining (rate k) \<or> 0 < remaining (depth k) \<or> 0 < remaining (delay k)
      \<or> 0 < remaining (dryMix k) \<or> 0 < remaining (wetMix k) \<or> 0 < remaining (odd90 k))"

text \<open>
  \<open>doRendering\<close> (\<open>src/README.md\<close> lines 182-206). \<open>frames\<close> holds the \<open>frameCount\<close>
  frames the call reads through \<open>ins\<close>, one list of channel samples per frame; the result
  holds the frames written through \<open>outs\<close>. The loop of the second branch is
  \<open>doRendering_loop\<close>.
\<close>

fun doRendering_loop ::
  "'lfo LFO_ops \<Rightarrow> 'dl Delay_ops \<Rightarrow> real \<Rightarrow> real \<Rightarrow> bool \<Rightarrow> real \<Rightarrow> real \<Rightarrow> real list list
     \<Rightarrow> ('lfo, 'dl) Kernel \<Rightarrow> error + (('lfo, 'dl) Kernel \<times> real option list list)"
where
  "doRendering_loop ops dops nominal displacement odd90' wetMix' dryMix' [] k = Inr (k, [])"
| "doRendering_loop ops dops nominal displacement odd90' wetMix' dryMix' (ins # frames) k =
     (case writeSample dops ins odd90' wetMix' dryMix' (calcTaps ops nominal displacement odd90' k) of
        Inl e \<Rightarrow> Inl e
      | Inr (k', out) \<Rightarrow>
          (case doRendering_loop ops dops nominal displacement odd90' wetMix' dryMix' frames k' of
             Inl e \<Rightarrow> Inl e
           | Inr (k'', outs) \<Rightarrow> Inr (k'', out # outs)))"

definition doRendering ::
  "'lfo LFO_ops \<Rightarrow> 'dl Delay_ops \<Rightarrow> real list list \<Rightarrow> ('lfo, 'dl) Kernel
     \<Rightarrow> error + (('lfo, 'dl) Kernel \<times> real option list list)"
where
  "doRendering ops dops frames k =
     (let odd90' = Bool_get (odd90 k)
      in if isRamping k \<or> length frames = 1
         then
           (if length frames \<noteq> 1 then Inl AssertionFailed
            else
              (let nominal = fst (frameValue (delay k));
                   displacementFraction = fst (frameValue (depth k));
                   k1 = k\<lparr>delay := snd (frameValue (delay k)), depth := snd (frameValue (depth k))\<rparr>
               in if \<not> (0 \<le> displacementFraction \<and> displacementFraction \<le> 1)
                  then Inl AssertionFailed
                  else
                    (let k2 = calcTaps ops nominal (calcDisplacement k1 nominal displacementFraction)
                                odd90' k1;
                         wetMix' = fst (frameValue (wetMix k2));
                         dryMix' = fst (frameValue (dryMix k2));
                         k3 = k2\<lparr>wetMix := snd (frameValue (wetMix k2)),
                                 dryMix := snd (frameValue (dryMix k2))\<rparr>
                     in case writeSample dops (hd frames) odd90' wetMix' dryMix' k3 of
                          Inl e \<Rightarrow> Inl e
                        | Inr (k4, out) \<Rightarrow> Inr (k4, [out]))))
         else
           (let nominal = Milliseconds_get (delay k);
                displacementFraction = Percentage_normalized (depth k)
            in if \<not> (0 \<le> displacementFraction \<and> displacementFraction \<le> 1)
               then Inl AssertionFailed
               else
                 (let displacement = calcDisplacement k nominal displacementFraction;
                      wetMix' = Percentage_normalized (wetMix k)
                  in if \<not> (0 \<le> wetMix' \<and> wetMix' \<le> 1) then Inl AssertionFailed
                     else
                       (let dryMix' = Percentage_normalized (dryMix k)
                        in if \<not> (0 \<le> dryMix' \<and> dryMix' \<le> 1) then Inl AssertionFailed
                           else doRendering_loop ops dops nominal displacement odd90'
                                  wetMix' dryMix' frames k))))"

text \<open>
  The per-sample strategy on a whole block: the frames are rendered one call at a time,
  each call with \<open>frameCount = 1\<close>, so that every call takes the first branch of
  \<open>doRendering\<close> and advances the parameters with \<open>frameValue()\<close>.
\<close>

fun perSampleRendering ::
  "'lfo LFO_ops \<Rightarrow> 'dl Delay_ops \<Rightarrow> real list list \<Rightarrow> ('lfo, 'dl) Kernel
     \<Rightarrow> error + (('lfo, 'dl) Kernel \<times> real option list list)"
where
  "perSampleRendering ops dops [] k = Inr (k, [])"
| "perSampleRendering ops dops (ins # frames) k =
     (case doRendering ops dops [ins] k of
        Inl e \<Rightarrow> Inl e
      | Inr (k', out) \<Rightarrow>
          (case perSampleRendering ops dops frames k' of
             Inl e \<Rightarrow> Inl e
           | Inr (k'', outs) \<Rightarrow> Inr (k'', out @ outs)))"

subsection \<open>The single-oscillator kernel of Kernel.hpp\<close>

text \<open>
  \<open>initialize\<close> (\<open>Kernel.hpp\<close> lines 74-89; \<open>src/unnamed/part_001\<close> lines 72-87 are the
  same text): \<open>maxDelayMilliseconds\<close> sizes the delay lines and is not kept.
\<close>

definition Kernel_hpp_initialize ::
  "'lfo LFO_ops \<Rightarrow> 'dl Delay_ops \<Rightarrow> int \<Rightarrow> real \<Rightarrow> real \<Rightarrow> ('lfo, 'dl) MonoKernel
     \<Rightarrow> ('lfo, 'dl) MonoKernel"
where
  "Kernel_hpp_initialize ops dops channelCount sampleRate' maxDelayMilliseconds' k =
     (let spm = sampleRate' / 1000;
          rate' = Milliseconds_get (rate k);
          lfo' = lfo_setFrequency ops rate' 0
                   (lfo_setWaveform ops sinusoid (lfo_setSampleRate ops sampleRate' (lfo k)));
          size' = maxDelayMilliseconds' * spm * 2 + 1
      in k\<lparr>samplesPerMillisecond := spm, lfo := lfo',
            delayLines := replicate (nat channelCount) (dl_new dops size' cubic4thOrder)\<rparr>)"

text \<open>
  \<open>doRendering\<close> (\<open>Kernel.hpp\<close> lines 110-144). Line 125, the displacement, is
  \<open>Kernel_hpp_displacement\<close>; lines 132-133, the two taps, are \<open>Kernel_hpp_taps\<close>; the
  channel loop of lines 137-142 is \<open>Kernel_hpp_channels\<close>; one iteration of the frame loop
  is \<open>Kernel_hpp_frame\<close>.
\<close>

definition Kernel_hpp_displacement :: "real \<Rightarrow> real \<Rightarrow> real" where
  "Kernel_hpp_displacement tap displacementFraction = tap * displacementFraction"

definition Kernel_hpp_taps :: "'lfo LFO_ops \<Rightarrow> 'lfo \<Rightarrow> real \<Rightarrow> real \<Rightarrow> real \<times> real" where
  "Kernel_hpp_taps ops osc tap displacement =
     (let evenTap = lfo_value ops osc * displacement + tap;
          oddTap = lfo_quadPhaseValue ops osc * displacement + tap
      in (evenTap, oddTap))"

fun Kernel_hpp_channels ::
  "'dl Delay_ops \<Rightarrow> bool \<Rightarrow> real \<Rightarrow> real \<Rightarrow> real \<Rightarrow> real \<Rightarrow> nat \<Rightarrow> real list \<Rightarrow> 'dl list
     \<Rightarrow> error + ('dl list \<times> real list)"
where
  "Kernel_hpp_channels dops odd90' evenTap oddTap wetMix' dryMix' channel [] dls = Inr (dls, [])"
| "Kernel_hpp_channels dops odd90' evenTap oddTap wetMix' dryMix' channel (inputSample # ins) dls =
     (if channel < length dls
      then
        (let delayedSample = dl_read dops (dls ! channel)
                               (if odd channel \<and> odd90' then oddTap else evenTap);
             dls' = dls[channel := dl_write dops inputSample (dls ! channel)]
         in case Kernel_hpp_channels dops odd90' evenTap oddTap wetMix' dryMix' (Suc channel) ins dls' of
              Inl e \<Rightarrow> Inl e
            | Inr (dls'', outs) \<Rightarrow> Inr (dls'', (wetMix' * delayedSample + dryMix' * inputSample) # outs))
      else Inl IndexOutOfRange)"

definition Kernel_hpp_frame ::
  "'lfo LFO_ops \<Rightarrow> 'dl Delay_ops \<Rightarrow> bool \<Rightarrow> real list \<Rightarrow> ('lfo, 'dl) MonoKernel
     \<Rightarrow> error + (('lfo, 'dl) MonoKernel \<times> real list)"
where
  "Kernel_hpp_frame ops dops odd90' ins k =
     (let tap = fst (frameValue (delay k));
          displacementFraction = fst (frameValue (depth k));
          k1 = k\<lparr>delay := snd (frameValue (delay k)), depth := snd (frameValue (depth k))\<rparr>
      in if \<not> (0 \<le> displacementFraction \<and> displacementFraction \<le> 1) then Inl AssertionFailed
         else
           (let displacement = Kernel_hpp_displacement tap displacementFraction;
                wetMix' = fst (frameValue (wetMix k1))
            in if \<not> (0 \<le> wetMix' \<and> wetMix' \<le> 1) then Inl AssertionFailed
               else
                 (let dryMix' = fst (frameValue (dryMix k1))
                  in if \<not> (0 \<le> dryMix' \<and> dryMix' \<le> 1) then Inl AssertionFailed
                     else
                       (let t = Kernel_hpp_taps ops (lfo k1) tap displacement;
                            k2 = k1\<lparr>wetMix := snd (frameValue (wetMix k1)),
                                    dryMix := snd (frameValue (dryMix k1)),
                                    lfo := lfo_increment ops (lfo k1)\<rparr>
                        in case Kernel_hpp_channels dops odd90' (fst t) (snd t) wetMix' dryMix' 0 ins
                                  (delayLines k2) of
                             Inl e \<Rightarrow> Inl e
                           | Inr (dls, out) \<Rightarrow> Inr (k2\<lparr>delayLines := dls\<rparr>, out)))))"

fun Kernel_hpp_doRendering_loop ::
  "'lfo LFO_ops \<Rightarrow> 'dl Delay_ops \<Rightarrow> bool \<Rightarrow> real list list \<Rightarrow> ('lfo, 'dl) MonoKernel
     \<Rightarrow> error + (('lfo, 'dl) MonoKernel \<times> real list list)"
where
  "Kernel_hpp_doRendering_loop ops dops odd90' [] k = Inr (k, [])"
| "Kernel_hpp_doRendering_loop ops dops odd90' (ins # frames) k =
     (case Kernel_hpp_frame ops dops odd90' ins k of
        Inl e \<Rightarrow> Inl e
      | Inr (k', out) \<Rightarrow>
          (case Kernel_hpp_doRendering_loop ops dops odd90' frames k' of
             Inl e \<Rightarrow> Inl e
           | Inr (k'', outs) \<Rightarrow> Inr (k'', out # outs)))"

definition Kernel_hpp_doRendering ::
  "'lfo LFO_ops \<Rightarrow> 'dl Delay_ops \<Rightarrow> real list list \<Rightarrow> ('lfo, 'dl) MonoKernel
     \<Rightarrow> error + (('lfo, 'dl) MonoKernel \<times> real list list)"
where
  "Kernel_hpp_doRendering ops dops frames k =
     Kernel_hpp_doRendering_loop ops dops (Bool_get (odd90 k)) frames k"

subsection \<open>The single-oscillator kernel of part_001\<close>

text \<open>
  \<open>renderFrames\<close> (\<open>src/unnamed/part_001\<close> lines 117-154). Lines 126-128, the
  displacement, are \<open>part_001_displacement\<close>; the channel loop of lines 144-152, which reads
  and writes the delay line only \<open>if (displacement)\<close>, is \<open>part_001_channels\<close>; the frame
  loop of lines 138-153 is \<open>part_001_frames\<close>.
\<close>

definition part_001_displacement :: "real \<Rightarrow> real \<Rightarrow> real" where
  "part_001_displacement tap displacementFraction =
     (let minTap = 1 / 1000 in max (tap - minTap) 0 * displacementFraction)"

fun part_001_channels ::
  "'dl Delay_ops \<Rightarrow> bool \<Rightarrow> real \<Rightarrow> real \<Rightarrow> real \<Rightarrow> real \<Rightarrow> real \<Rightarrow> nat \<Rightarrow> real list \<Rightarrow> 'dl list
     \<Rightarrow> error + ('dl list \<times> real list)"
where
  "part_001_channels dops odd90' displacement evenDelay oddDelay wetMix' dryMix' channel [] dls =
     Inr (dls, [])"
| "part_001_channels dops odd90' displacement evenDelay oddDelay wetMix' dryMix' channel
     (inputSample # ins) dls =
     (if displacement \<noteq> 0
      then
        (if channel < length dls
         then
           (let delayedSample = dl_read dops (dls ! channel)
                                  (if odd channel \<and> odd90' then oddDelay else evenDelay);
                dls' = dls[channel := dl_write dops inputSample (dls ! channel)]
            in case part_001_channels dops odd90' displacement evenDelay oddDelay wetMix' dryMix'
                      (Suc channel) ins dls' of
                 Inl e \<Rightarrow> Inl e
               | Inr (dls'', outs) \<Rightarrow>
                   Inr (dls'', (wetMix' * delayedSample + dryMix' * inputSample) # outs))
         else Inl IndexOutOfRange)
      else
        (let delayedSample = inputSample
         in case part_001_channels dops odd90' displacement evenDelay oddDelay wetMix' dryMix'
                   (Suc channel) ins dls of
              Inl e \<Rightarrow> Inl e
            | Inr (dls'', outs) \<Rightarrow>
                Inr (dls'', (wetMix' * delayedSample + dryMix' * inputSample) # outs)))"

fun part_001_frames ::
  "'lfo LFO_ops \<Rightarrow> 'dl Delay_ops \<Rightarrow> bool \<Rightarrow> real \<Rightarrow> real \<Rightarrow> real \<Rightarrow> real \<Rightarrow> real list list
     \<Rightarrow> ('lfo, 'dl) MonoKernel \<Rightarrow> error + (('lfo, 'dl) MonoKernel \<times> real list list)"
where
  "part_001_frames ops dops odd90' tap displacement wetMix' dryMix' [] k = Inr (k, [])"
| "part_001_frames ops dops odd90' tap displacement wetMix' dryMix' (ins # frames) k =
     (let evenDelay = lfo_value ops (lfo k) * displacement + tap;
          oddDelay = lfo_quadPhaseValue ops (lfo k) * displacement + tap;
          k1 = k\<lparr>lfo := lfo_increment ops (lfo k)\<rparr>
      in case part_001_channels dops odd90' displacement evenDelay oddDelay wetMix' dryMix' 0 ins
                (delayLines k1) of
           Inl e \<Rightarrow> Inl e
         | Inr (dls, out) \<Rightarrow>
             (case part_001_frames ops dops odd90' tap displacement wetMix' dryMix' frames
                     (k1\<lparr>delayLines := dls\<rparr>) of
                Inl e \<Rightarrow> Inl e
              | Inr (k'', outs) \<Rightarrow> Inr (k'', out # outs)))"

definition part_001_renderFrames ::
  "'lfo LFO_ops \<Rightarrow> 'dl Delay_ops \<Rightarrow> real list list \<Rightarrow> ('lfo, 'dl) MonoKernel
     \<Rightarrow> error + (('lfo, 'dl) MonoKernel \<times> real list list)"
where
  "part_001_renderFrames ops dops frames k =
     (let tap = fst (frameValue (delay k));
          displacementFraction = fst (frameValue (depth k));
          k1 = k\<lparr>delay := snd (frameValue (delay k)), depth := snd (frameValue (depth k))\<rparr>
      in if \<not> (0 \<le> displacementFraction \<and> displacementFraction \<le> 1) then Inl AssertionFailed
         else
           (let displacement = part_001_displacement tap displacementFraction;
                wetMix' = fst (frameValue (wetMix k1))
            in if \<not> (0 \<le> wetMix' \<and> wetMix' \<le> 1) then Inl AssertionFailed
               else
                 (let dryMix' = fst (frameValue (dryMix k1))
                  in if \<not> (0 \<le> dryMix' \<and> dryMix' \<le> 1) then Inl AssertionFailed
                     else
                       (let k2 = k1\<lparr>wetMix := snd (frameValue (wetMix k1)),
                                    dryMix := snd (frameValue (dryMix k1))\<rparr>;
                            odd90' = Bool_get (odd90 k2)
                        in part_001_frames ops dops odd90' tap displacement wetMix' dryMix'
                             frames k2))))"

subsection \<open>Parameter dispatch\<close>

datatype ParameterAddress =
  ParameterAddressRate | ParameterAddressDepth | ParameterAddressDelay
  | ParameterAddressDry | ParameterAddressWet | ParameterAddressOdd90

text \<open>
  Modelled from the spec: \<open>setRampedParameterValue\<close> is declared in the class and defined
  in a file that is not among the sources. A parameter change is routed to the matching
  parameter's \<open>set\<close>; a rate change goes through \<open>setRate\<close> and so reaches every oscillator.
\<close>

definition setRampedParameterValue ::
  "'lfo LFO_ops \<Rightarrow> ParameterAddress \<Rightarrow> real \<Rightarrow> nat \<Rightarrow> ('lfo, 'dl) Kernel \<Rightarrow> ('lfo, 'dl) Kernel"
where
  "setRampedParameterValue ops address v duration k =
     (case address of
        ParameterAddressRate \<Rightarrow> setRate ops v duration k
      | ParameterAddressDepth \<Rightarrow> k\<lparr>depth := Percentage_set v duration (depth k)\<rparr>
      | ParameterAddressDelay \<Rightarrow> k\<lparr>delay := Milliseconds_set v duration (delay k)\<rparr>
      | ParameterAddressDry \<Rightarrow> k\<lparr>dryMix := Percentage_set v duration (dryMix k)\<rparr>
      | ParameterAddressWet \<Rightarrow> k\<lparr>wetMix := Percentage_set v duration (wetMix k)\<rparr>
      | ParameterAddressOdd90 \<Rightarrow> k\<lparr>odd90 := Bool_set v duration (odd90 k)\<rparr>)"


text \<open>
  Modelled from the spec: \<open>getParameterValue\<close> is declared in the class and defined in a
  file that is not among the sources. It returns the settled value in the domain in which
  values are supplied: milliseconds, a percentage, or 0/1 for the boolean.
\<close>

definition getParameterValue :: "ParameterAddress \<Rightarrow> ('lfo, 'dl) Kernel \<Rightarrow> real" where
  "getParameterValue address k =
     (case address of
        ParameterAddressRate \<Rightarrow> Milliseconds_get (rate k)
      | ParameterAddressDepth \<Rightarrow> Percentage_get (depth k)
      | ParameterAddressDelay \<Rightarrow> Milliseconds_get (delay k)
      | ParameterAddressDry \<Rightarrow> Percentage_get (dryMix k)
      | ParameterAddressWet \<Rightarrow> Percentage_get (wetMix k)
      | ParameterAddressOdd90 \<Rightarrow> (if Bool_get (odd90 k) then 1 else 0))"

text \<open>
  Modelled from the spec: the legal domain of each parameter: a percentage between 0 and
  100 for depth and the two mixes, 0 or 1 for the boolean; the spec puts no bound on the
  two millisecond parameters.
\<close>

definition legalValue :: "ParameterAddress \<Rightarrow> real \<Rightarrow> bool" where
  "legalValue address v =
     (case address of
        ParameterAddressRate \<Rightarrow> True
      | ParameterAddressDepth \<Rightarrow> 0 \<le> v \<and> v \<le> 100
      | ParameterAddressDelay \<Rightarrow> True
      | ParameterAddressDry \<Rightarrow> 0 \<le> v \<and> v \<le> 100
      | ParameterAddressWet \<Rightarrow> 0 \<le> v \<and> v \<le> 100
      | ParameterAddressOdd90 \<Rightarrow> v = 0 \<or> v = 1)"

text \<open>
  The preconditions of the comparison of the two strategies: no ramp is in progress on any
  of the six parameters, and the depth and the two mixes are in the range the assertions of
  \<open>doRendering\<close> demand.
\<close>

definition noRampInProgress :: "('dl, 'z) KernelCore_scheme \<Rightarrow> bool" where
  "noRampInProgress k =
     (settled (rate k) \<and> settled (depth k) \<and> settled (delay k)
      \<and> settled (dryMix k) \<and> settled (wetMix k) \<and> settled (odd90 k))"

definition mixesInRange :: "('dl, 'z) KernelCore_scheme \<Rightarrow> bool" where
  "mixesInRange k =
     (0 \<le> Percentage_normalized (depth k) \<and> Percentage_normalized (depth k) \<le> 1
      \<and> 0 \<le> Percentage_normalized (wetMix k) \<and> Percentage_normalized (wetMix k) \<le> 1
      \<and> 0 \<le> Percentage_normalized (dryMix k) \<and> Percentage_normalized (dryMix k) \<le> 1)"

subsection \<open>Concrete states\<close>

text \<open>
  States on which the kernels are run below: a triangle oscillator a quarter of the way
  through its cycle (its value is 1, its quadrature value 0), a delay line that holds the
  samples 1 to 8 (8 written last), a two-oscillator kernel with two channels at 1000 Hz
  (one sample per millisecond) and a single-oscillator kernel at 44100 Hz.
\<close>

definition exampleLFO :: LFO where
  "exampleLFO = \<lparr>sampleRate = 1000, waveform = triangle,
                  phaseIncrement = RampingParameter_init (1 / 250), phase = 1 / 4\<rparr>"

definition exampleDelayBuffer :: DelayBuffer where
  "exampleDelayBuffer = \<lparr>interpolator = cubic4thOrder, storage = [1, 2, 3, 4, 5, 6, 7, 8],
                          writePos = 0\<rparr>"

definition exampleKernel :: "(LFO, DelayBuffer) Kernel" where
  "exampleKernel =
     \<lparr>rate = RampingParameter_init 4, depth = RampingParameter_init (1 / 2),
      delay = RampingParameter_init 4, dryMix = RampingParameter_init (1 / 2),
      wetMix = RampingParameter_init (1 / 2), odd90 = RampingParameter_init 1,
      samplesPerMillisecond = 1, delayLines = [exampleDelayBuffer, exampleDelayBuffer],
      lfoCount = 2, maxDelayMilliseconds = 8,
      lfos = replicate MAX_LFOS exampleLFO, taps = replicate MAX_LFOS (0, 0),
      name = ''example''\<rparr>"

definition exampleMonoKernel :: "(LFO, DelayBuffer) MonoKernel" where
  "exampleMonoKernel =
     \<lparr>rate = RampingParameter_init 4, depth = RampingParameter_init (1 / 2),
      delay = RampingParameter_init 4, dryMix = RampingParameter_init (1 / 2),
      wetMix = RampingParameter_init (1 / 2), odd90 = RampingParameter_init 1,
      samplesPerMillisecond = 441 / 10, delayLines = [exampleDelayBuffer, exampleDelayBuffer],
      lfo = exampleLFO, rampRemaining = 0\<rparr>"

section \<open>Properties of the embedding\<close>

subsection \<open>Ramped parameters\<close>

lemma frameValue_fst [simp]: "fst (frameValue p) = current p"
  by (simp add: frameValue_def)

lemma ramp_arith:
  fixes a b c t :: real
  assumes "0 < a"
  shows "(c + (t - c) / (a + 1)) + (t - (c + (t - c) / (a + 1))) * b / a
         = c + (t - c) * (b + 1) / (a + 1)"
proof -
  have "t - (c + (t - c) / (a + 1)) = (t - c) * a / (a + 1)"
    using assms by (simp add: field_simps)
  then have "(t - (c + (t - c) / (a + 1))) * b / a = (t - c) * b / (a + 1)"
    using assms by simp
  moreover have "(t - c) / (a + 1) + (t - c) * b / (a + 1) = (t - c) * (b + 1) / (a + 1)"
    by (simp add: add_divide_distrib [symmetric] distrib_left)
  ultimately show ?thesis by simp
qed

lemma afterFrames_ramp:
  "i \<le> remaining p \<Longrightarrow>
   afterFrames i p =
     p\<lparr>current := current p + (target p - current p) * real i / real (remaining p),
       remaining := remaining p - i\<rparr>"
proof (induction i arbitrary: p)
  case 0
  then show ?case by simp
next
  case (Suc i)
  then obtain r where r: "remaining p = Suc r" by (cases "remaining p") auto
  let ?q = "snd (frameValue p)"
  have q: "?q = p\<lparr>current := current p + (target p - current p) / real (Suc r), remaining := r\<rparr>"
    using r by (simp add: frameValue_def)
  have ir: "i \<le> remaining ?q" using Suc.prems r q by simp
  have "afterFrames (Suc i) p = afterFrames i ?q" by simp
  also have "\<dots> = ?q\<lparr>current := current ?q + (target ?q - current ?q) * real i / real (remaining ?q),
                      remaining := remaining ?q - i\<rparr>"
    using Suc.IH [OF ir] .
  also have "\<dots> = p\<lparr>current := current p + (target p - current p) * real (Suc i) / real (remaining p),
                      remaining := remaining p - Suc i\<rparr>"
  proof (cases "r = 0")
    case True
    with ir q have "i = 0" by simp
    with True q r show ?thesis by simp
  next
    case False
    then have "real r > 0" by simp
    from ramp_arith [OF this, of "current p" "target p" "real i"]
    show ?thesis
      using q r by (simp add: add.commute)
  qed
  finally show ?case .
qed

lemma afterFrames_add: "afterFrames (m + n) p = afterFrames n (afterFrames m p)"
  by (induction m arbitrary: p) simp_all

lemma afterFrames_settled:
  "remaining p = 0 \<Longrightarrow> afterFrames m p = p"
  by (induction m) (simp_all add: frameValue_def)

lemma frameValues_map:
  "frameValues n p = map (\<lambda>i. current (afterFrames i p)) [0..<n]"
proof (induction n arbitrary: p)
  case 0
  then show ?case by simp
next
  case (Suc n)
  have "map (\<lambda>i. current (afterFrames i p)) [0..<Suc n]
        = current p # map (\<lambda>i. current (afterFrames (Suc i) p)) [0..<n]"
    by (simp add: upt_conv_Cons map_Suc_upt [symmetric] del: upt_Suc)
  then show ?case using Suc.IH [of "snd (frameValue p)"] by simp
qed

lemma frameValue_step_up:
  assumes "current q \<le> target q"
  shows "current q \<le> current (snd (frameValue q))"
    and "current (snd (frameValue q)) \<le> target (snd (frameValue q))"
proof -
  show "current q \<le> current (snd (frameValue q))"
    using assms by (simp add: frameValue_def)
  show "current (snd (frameValue q)) \<le> target (snd (frameValue q))"
  proof (cases "remaining q")
    case 0
    then show ?thesis using assms by (simp add: frameValue_def)
  next
    case (Suc r)
    have "(target q - current q) / real (Suc r) \<le> target q - current q"
      using assms by (simp add: field_simps mult_left_mono)
    then show ?thesis using Suc by (simp add: frameValue_def)
  qed
qed

lemma frameValue_step_down:
  assumes "target q \<le> current q"
  shows "current (snd (frameValue q)) \<le> current q"
    and "target (snd (frameValue q)) \<le> current (snd (frameValue q))"
proof -
  show "current (snd (frameValue q)) \<le> current q"
    using assms by (simp add: frameValue_def divide_nonpos_nonneg)
  show "target (snd (frameValue q)) \<le> current (snd (frameValue q))"
  proof (cases "remaining q")
    case 0
    then show ?thesis using assms by (simp add: frameValue_def)
  next
    case (Suc r)
    have "(target q - current q) * real (Suc r) \<le> (target q - current q) * 1"
      using assms by (intro mult_left_mono_neg) simp_all
    then have "target q - current q \<le> (target q - current q) / real (Suc r)"
      by (simp add: pos_le_divide_eq del: of_nat_Suc)
    then show ?thesis using Suc by (simp add: frameValue_def)
  qed
qed

lemma frameValues_sorted_up:
  "current q \<le> target q \<Longrightarrow>
   sorted_wrt (\<le>) (frameValues n q) \<and> (\<forall>x \<in> set (frameValues n q). current q \<le> x)"
proof (induction n arbitrary: q)
  case 0
  then show ?case by simp
next
  case (Suc n)
  from frameValue_step_up [OF Suc.prems]
  have 1: "current q \<le> current (snd (frameValue q))"
    and 2: "current (snd (frameValue q)) \<le> target (snd (frameValue q))" by simp_all
  from Suc.IH [OF 2] 1 show ?case by auto
qed

lemma frameValues_sorted_down:
  "target q \<le> current q \<Longrightarrow>
   sorted_wrt (\<ge>) (frameValues n q) \<and> (\<forall>x \<in> set (frameValues n q). x \<le> current q)"
proof (induction n arbitrary: q)
  case 0
  then show ?case by simp
next
  case (Suc n)
  from frameValue_step_down [OF Suc.prems]
  have 1: "current (snd (frameValue q)) \<le> current q"
    and 2: "target (snd (frameValue q)) \<le> current (snd (frameValue q))" by simp_all
  from Suc.IH [OF 2] 1 show ?case by auto
qed

lemma afterFrames_param_set:
  "afterFrames N (param_set tgt N p0) = \<lparr>current = tgt, target = tgt, remaining = 0\<rparr>"
proof (cases "N = 0")
  case True
  then show ?thesis by (simp add: param_set_def)
next
  case False
  let ?p = "param_set tgt N p0"
  have p: "?p = p0\<lparr>target := tgt, remaining := N\<rparr>" using False by (simp add: param_set_def)
  have "afterFrames N ?p =
          ?p\<lparr>current := current ?p + (target ?p - current ?p) * real N / real (remaining ?p),
              remaining := remaining ?p - N\<rparr>"
    by (rule afterFrames_ramp) (simp add: p)
  then show ?thesis using False by (simp add: p)
qed


lemma frameValue_settled: "settled p \<Longrightarrow> frameValue p = (target p, p)"
  by (simp add: frameValue_def settled_def)

subsection \<open>Taps\<close>

lemma calcTaps_fold:
  assumes "n \<le> length (lfos k)" "n \<le> length (taps k)"
  shows "fold (calcTaps_at ops nominal displacement odd90') [0..<n] k =
           k\<lparr>lfos := map (lfo_increment ops) (take n (lfos k)) @ drop n (lfos k),
             taps := map (\<lambda>osc. fst (calcTap ops (samplesPerMillisecond k) osc nominal displacement odd90'))
                       (take n (lfos k)) @ drop n (taps k)\<rparr>"
  using assms
proof (induction n)
  case 0
  then show ?case by simp
next
  case (Suc n)
  then have n: "n < length (lfos k)" "n < length (taps k)" by simp_all
  have snd_calcTap: "snd (calcTap ops spm osc nominal displacement odd90') = lfo_increment ops osc"
    for spm osc by (simp add: calcTap_def Let_def)
  have upd: "(xs @ drop n ys)[n := v] = xs @ [v] @ drop (Suc n) ys"
    if "length xs = n" "n < length ys" for xs and ys :: "'c list" and v
    using that by (simp add: list_update_append Cons_nth_drop_Suc [symmetric])
  have nth_at: "(xs @ drop n ys) ! n = ys ! n" if "length xs = n" "n < length ys"
    for xs and ys :: "'c list"
    using that by (simp add: nth_append)
  show ?case
    using Suc.IH n
    by (simp add: calcTaps_at_def Let_def snd_calcTap upd nth_at take_Suc_conv_app_nth)
qed

lemma calcTaps_eq:
  assumes "Kernel_wf k"
  shows "calcTaps ops nominal displacement odd90' k =
           k\<lparr>lfos := map (lfo_increment ops) (take (lfoCount k) (lfos k)) @ drop (lfoCount k) (lfos k),
             taps := map (\<lambda>osc. fst (calcTap ops (samplesPerMillisecond k) osc nominal displacement odd90'))
                       (take (lfoCount k) (lfos k)) @ drop (lfoCount k) (taps k)\<rparr>"
  unfolding calcTaps_def using assms by (intro calcTaps_fold) (simp_all add: Kernel_wf_def)

lemma calcTaps_wf: "Kernel_wf k \<Longrightarrow> Kernel_wf (calcTaps ops nominal displacement odd90' k)"
  by (simp add: calcTaps_eq) (simp add: Kernel_wf_def)

lemma calcTaps_fold_only:
  "fold (calcTaps_at ops nominal displacement odd90') xs k =
     k\<lparr>lfos := lfos (fold (calcTaps_at ops nominal displacement odd90') xs k),
       taps := taps (fold (calcTaps_at ops nominal displacement odd90') xs k)\<rparr>"
proof (induction xs arbitrary: k)
  case Nil
  then show ?case by simp
next
  case (Cons x xs)
  let ?k1 = "calcTaps_at ops nominal displacement odd90' x k"
  have k1: "?k1 = k\<lparr>lfos := lfos ?k1, taps := taps ?k1\<rparr>"
    by (simp add: calcTaps_at_def Let_def)
  have "fold (calcTaps_at ops nominal displacement odd90') (x # xs) k
          = fold (calcTaps_at ops nominal displacement odd90') xs ?k1" by simp
  also have "\<dots> = ?k1\<lparr>lfos := lfos (fold (calcTaps_at ops nominal displacement odd90') xs ?k1),
                       taps := taps (fold (calcTaps_at ops nominal displacement odd90') xs ?k1)\<rparr>"
    by (rule Cons.IH)
  also have "\<dots> = k\<lparr>lfos := lfos (fold (calcTaps_at ops nominal displacement odd90') xs ?k1),
                       taps := taps (fold (calcTaps_at ops nominal displacement odd90') xs ?k1)\<rparr>"
    by (subst k1) simp
  finally show ?case by simp
qed

lemma calcTaps_only:
  "calcTaps ops nominal displacement odd90' k =
     k\<lparr>lfos := lfos (calcTaps ops nominal displacement odd90' k),
       taps := taps (calcTaps ops nominal displacement odd90' k)\<rparr>"
  unfolding calcTaps_def by (rule calcTaps_fold_only)

lemma calcTaps_keeps:
  "rate (calcTaps ops nominal displacement odd90' k) = rate k"
  "depth (calcTaps ops nominal displacement odd90' k) = depth k"
  "delay (calcTaps ops nominal displacement odd90' k) = delay k"
  "dryMix (calcTaps ops nominal displacement odd90' k) = dryMix k"
  "wetMix (calcTaps ops nominal displacement odd90' k) = wetMix k"
  "odd90 (calcTaps ops nominal displacement odd90' k) = odd90 k"
  "delayLines (calcTaps ops nominal displacement odd90' k) = delayLines k"
  "maxDelayMilliseconds (calcTaps ops nominal displacement odd90' k) = maxDelayMilliseconds k"
  by (subst calcTaps_only, simp)+

lemma calcTaps_active:
  assumes "Kernel_wf k" "index < lfoCount k"
  shows "taps (calcTaps ops nominal displacement odd90' k) ! index
           = fst (calcTap ops (samplesPerMillisecond k) (lfos k ! index) nominal displacement odd90')"
    and "lfos (calcTaps ops nominal displacement odd90' k) ! index = lfo_increment ops (lfos k ! index)"
  using assms by (simp_all add: calcTaps_eq nth_append Kernel_wf_def)

lemma calcTaps_fields:
  assumes "Kernel_wf k"
  shows "lfoCount (calcTaps ops nominal displacement odd90' k) = lfoCount k"
    and "samplesPerMillisecond (calcTaps ops nominal displacement odd90' k) = samplesPerMillisecond k"
  using assms by (simp_all add: calcTaps_eq)

subsection \<open>Channel loops\<close>

lemma Kernel_hpp_channels_result:
  assumes "Kernel_hpp_channels dops odd90' evenTap oddTap wetMix' dryMix' c0 ins dls = Inr (dls', outs)"
  shows "length outs = length ins \<and> length dls' = length dls
         \<and> (\<forall>j < length ins.
               outs ! j = wetMix' * dl_read dops (dls ! (c0 + j))
                                      (if odd (c0 + j) \<and> odd90' then oddTap else evenTap)
                          + dryMix' * ins ! j
               \<and> dls' ! (c0 + j) = dl_write dops (ins ! j) (dls ! (c0 + j)))
         \<and> (\<forall>c. c < c0 \<or> c0 + length ins \<le> c \<longrightarrow> dls' ! c = dls ! c)"
  using assms
proof (induction ins arbitrary: c0 dls dls' outs)
  case Nil
  then show ?case by simp
next
  case (Cons x ins)
  let ?dls1 = "dls[c0 := dl_write dops x (dls ! c0)]"
  from Cons.prems have c0: "c0 < length dls"
    by (simp split: if_splits)
  from Cons.prems c0 obtain outs1 where
    rec: "Kernel_hpp_channels dops odd90' evenTap oddTap wetMix' dryMix' (Suc c0) ins ?dls1 = Inr (dls', outs1)"
    and outs: "outs = (wetMix' * dl_read dops (dls ! c0) (if odd c0 \<and> odd90' then oddTap else evenTap)
                       + dryMix' * x) # outs1"
    by (auto simp: Let_def split: sum.splits)
  note IH = Cons.IH [OF rec]
  from IH have len: "length outs1 = length ins" "length dls' = length dls"
    by simp_all
  from IH have each: "outs1 ! j = wetMix' * dl_read dops (?dls1 ! (Suc c0 + j))
                                      (if odd (Suc c0 + j) \<and> odd90' then oddTap else evenTap)
                          + dryMix' * ins ! j
               \<and> dls' ! (Suc c0 + j) = dl_write dops (ins ! j) (?dls1 ! (Suc c0 + j))"
    if "j < length ins" for j
    using that by blast
  from IH have rest: "dls' ! c = ?dls1 ! c" if "c < Suc c0 \<or> Suc c0 + length ins \<le> c" for c
    using that by blast
  have at_j: "outs ! j = wetMix' * dl_read dops (dls ! (c0 + j))
                                      (if odd (c0 + j) \<and> odd90' then oddTap else evenTap)
                          + dryMix' * (x # ins) ! j
               \<and> dls' ! (c0 + j) = dl_write dops ((x # ins) ! j) (dls ! (c0 + j))"
    if "j < length (x # ins)" for j
  proof (cases j)
    case 0
    then show ?thesis using outs rest [of c0] c0 by simp
  next
    case (Suc j')
    with that have "j' < length ins" by simp
    from each [OF this] show ?thesis using Suc outs by simp
  qed
  have other: "dls' ! c = dls ! c" if "c < c0 \<or> c0 + length (x # ins) \<le> c" for c
    using rest [of c] that by auto
  show ?case using len outs at_j other by simp
qed

lemma part_001_channels_result:
  assumes "part_001_channels dops odd90' displacement evenDelay oddDelay wetMix' dryMix' c0 ins dls
             = Inr (dls', outs)"
    and "displacement \<noteq> 0"
  shows "length outs = length ins \<and> length dls' = length dls
         \<and> (\<forall>j < length ins.
               outs ! j = wetMix' * dl_read dops (dls ! (c0 + j))
                                      (if odd (c0 + j) \<and> odd90' then oddDelay else evenDelay)
                          + dryMix' * ins ! j
               \<and> dls' ! (c0 + j) = dl_write dops (ins ! j) (dls ! (c0 + j)))
         \<and> (\<forall>c. c < c0 \<or> c0 + length ins \<le> c \<longrightarrow> dls' ! c = dls ! c)"
  using assms(1)
proof (induction ins arbitrary: c0 dls dls' outs)
  case Nil
  then show ?case by simp
next
  case (Cons x ins)
  let ?dls1 = "dls[c0 := dl_write dops x (dls ! c0)]"
  from Cons.prems assms(2) have c0: "c0 < length dls"
    by (simp split: if_splits)
  from Cons.prems c0 assms(2) obtain outs1 where
    rec: "part_001_channels dops odd90' displacement evenDelay oddDelay wetMix' dryMix' (Suc c0) ins ?dls1
            = Inr (dls', outs1)"
    and outs: "outs = (wetMix' * dl_read dops (dls ! c0) (if odd c0 \<and> odd90' then oddDelay else evenDelay)
                       + dryMix' * x) # outs1"
    by (auto simp: Let_def split: sum.splits)
  note IH = Cons.IH [OF rec]
  from IH have len: "length outs1 = length ins" "length dls' = length dls"
    by simp_all
  from IH have each: "outs1 ! j = wetMix' * dl_read dops (?dls1 ! (Suc c0 + j))
                                      (if odd (Suc c0 + j) \<and> odd90' then oddDelay else evenDelay)
                          + dryMix' * ins ! j
               \<and> dls' ! (Suc c0 + j) = dl_write dops (ins ! j) (?dls1 ! (Suc c0 + j))"
    if "j < length ins" for j
    using that by blast
  from IH have rest: "dls' ! c = ?dls1 ! c" if "c < Suc c0 \<or> Suc c0 + length ins \<le> c" for c
    using that by blast
  have at_j: "outs ! j = wetMix' * dl_read dops (dls ! (c0 + j))
                                      (if odd (c0 + j) \<and> odd90' then oddDelay else evenDelay)
                          + dryMix' * (x # ins) ! j
               \<and> dls' ! (c0 + j) = dl_write dops ((x # ins) ! j) (dls ! (c0 + j))"
    if "j < length (x # ins)" for j
  proof (cases j)
    case 0
    then show ?thesis using outs rest [of c0] c0 by simp
  next
    case (Suc j')
    with that have "j' < length ins" by simp
    from each [OF this] show ?thesis using Suc outs by simp
  qed
  have other: "dls' ! c = dls ! c" if "c < c0 \<or> c0 + length (x # ins) \<le> c" for c
    using rest [of c] that by auto
  show ?case using len outs at_j other by simp
qed

lemma part_001_channels_zero:
  "part_001_channels dops odd90' 0 evenDelay oddDelay wetMix' dryMix' c0 ins dls
     = Inr (dls, map (\<lambda>inputSample. wetMix' * inputSample + dryMix' * inputSample) ins)"
  by (induction ins arbitrary: c0) (simp_all add: Let_def)

lemma fold_plus_sum:
  fixes f :: "nat \<Rightarrow> real"
  shows "fold (\<lambda>index out. out + f index) [0..<n] a = a + (\<Sum>index<n. f index)"
  by (induction n) simp_all

lemma generate_sum:
  "generate dops k inputSample delayLine isEven =
     (if lfoCount k = 0 then None
      else Some ((\<Sum>index<lfoCount k.
                    dl_read dops delayLine
                      (if isEven then fst (taps k ! index) else snd (taps k ! index)))
                 / real (lfoCount k)))"
  by (simp add: generate_def fold_plus_sum)

lemma generate_cong:
  assumes "taps k1 = taps k" "lfoCount k1 = lfoCount k"
  shows "generate dops k1 inputSample delayLine isEven = generate dops k inputSample delayLine isEven"
  unfolding generate_def assms by (rule refl)

lemma generate_ignores_input:
  "generate dops k inputSample delayLine isEven = generate dops k inputSample' delayLine isEven"
  by (simp add: generate_def)

lemma writeSample_from_result:
  assumes "writeSample_from dops odd90' wetMix' dryMix' c0 ins k = Inr (k', outs)"
  shows "k' = k\<lparr>delayLines := delayLines k'\<rparr> \<and> length outs = length ins
         \<and> length (delayLines k') = length (delayLines k)
         \<and> (\<forall>j < length ins.
               outs ! j = map_option (\<lambda>w. wetMix' * w + dryMix' * ins ! j)
                            (generate dops k (ins ! j) (delayLines k ! (c0 + j)) (odd (c0 + j)))
               \<and> delayLines k' ! (c0 + j) = dl_write dops (ins ! j) (delayLines k ! (c0 + j)))
         \<and> (\<forall>c. c < c0 \<or> c0 + length ins \<le> c \<longrightarrow> delayLines k' ! c = delayLines k ! c)"
  using assms
proof (induction ins arbitrary: c0 k k' outs)
  case Nil
  then show ?case by simp
next
  case (Cons x ins)
  let ?k1 = "k\<lparr>delayLines := (delayLines k)[c0 := dl_write dops x (delayLines k ! c0)]\<rparr>"
  from Cons.prems have c0: "c0 < length (delayLines k)"
    by (simp split: if_splits)
  from Cons.prems c0 obtain outs1 where
    rec: "writeSample_from dops odd90' wetMix' dryMix' (Suc c0) ins ?k1 = Inr (k', outs1)"
    and outs: "outs = map_option (\<lambda>w. wetMix' * w + dryMix' * x)
                        (generate dops k x (delayLines k ! c0) (odd c0)) # outs1"
    by (auto simp: Let_def split: sum.splits)
  have gen: "generate dops ?k1 y dl e = generate dops k y dl e" for y dl e
    by (rule generate_cong) simp_all
  note IH = Cons.IH [OF rec]
  from IH have same: "k' = ?k1\<lparr>delayLines := delayLines k'\<rparr>" by blast
  from IH have len: "length outs1 = length ins" "length (delayLines k') = length (delayLines k)"
    by simp_all
  from IH have each: "outs1 ! j = map_option (\<lambda>w. wetMix' * w + dryMix' * ins ! j)
                            (generate dops ?k1 (ins ! j) (delayLines ?k1 ! (Suc c0 + j)) (odd (Suc c0 + j)))
               \<and> delayLines k' ! (Suc c0 + j) = dl_write dops (ins ! j) (delayLines ?k1 ! (Suc c0 + j))"
    if "j < length ins" for j
    using that by blast
  from IH have rest: "delayLines k' ! c = delayLines ?k1 ! c"
    if "c < Suc c0 \<or> Suc c0 + length ins \<le> c" for c
    using that by blast
  have k': "k' = k\<lparr>delayLines := delayLines k'\<rparr>"
    by (subst same) simp
  have at_j: "outs ! j = map_option (\<lambda>w. wetMix' * w + dryMix' * (x # ins) ! j)
                            (generate dops k ((x # ins) ! j) (delayLines k ! (c0 + j)) (odd (c0 + j)))
               \<and> delayLines k' ! (c0 + j) = dl_write dops ((x # ins) ! j) (delayLines k ! (c0 + j))"
    if "j < length (x # ins)" for j
  proof (cases j)
    case 0
    then show ?thesis using outs rest [of c0] c0 by simp
  next
    case (Suc j')
    with that have "j' < length ins" by simp
    from each [OF this] show ?thesis using Suc outs by (simp add: gen)
  qed
  have other: "delayLines k' ! c = delayLines k ! c" if "c < c0 \<or> c0 + length (x # ins) \<le> c" for c
    using rest [of c] that by auto
  show ?case using k' len outs at_j other by simp
qed

lemma writeSample_from_total:
  "c0 + length ins \<le> length (delayLines k) \<Longrightarrow>
   \<exists>k' outs. writeSample_from dops odd90' wetMix' dryMix' c0 ins k = Inr (k', outs)"
proof (induction ins arbitrary: c0 k)
  case Nil
  then show ?case by simp
next
  case (Cons x ins)
  let ?k1 = "k\<lparr>delayLines := (delayLines k)[c0 := dl_write dops x (delayLines k ! c0)]\<rparr>"
  have "Suc c0 + length ins \<le> length (delayLines ?k1)" using Cons.prems by simp
  from Cons.IH [OF this] obtain k' outs1 where
    "writeSample_from dops odd90' wetMix' dryMix' (Suc c0) ins ?k1 = Inr (k', outs1)" by blast
  then show ?case using Cons.prems by (simp add: Let_def)
qed

lemma writeSample_from_fails:
  "c0 \<le> length (delayLines k) \<Longrightarrow> length (delayLines k) < c0 + length ins \<Longrightarrow>
   writeSample_from dops odd90' wetMix' dryMix' c0 ins k = Inl IndexOutOfRange"
proof (induction ins arbitrary: c0 k)
  case Nil
  then show ?case by simp
next
  case (Cons x ins)
  let ?k1 = "k\<lparr>delayLines := (delayLines k)[c0 := dl_write dops x (delayLines k ! c0)]\<rparr>"
  show ?case
  proof (cases "c0 < length (delayLines k)")
    case True
    have "Suc c0 \<le> length (delayLines ?k1)" "length (delayLines ?k1) < Suc c0 + length ins"
      using Cons.prems True by simp_all
    from Cons.IH [OF this] show ?thesis using True by (simp add: Let_def)
  next
    case False
    then show ?thesis by simp
  qed
qed

lemma writeSample_result:
  assumes "writeSample dops ins odd90' wetMix' dryMix' k = Inr (k', outs)"
  shows "k' = k\<lparr>delayLines := delayLines k'\<rparr>" and "length outs = length ins"
    and "length (delayLines k') = length (delayLines k)"
    and "c < length ins \<Longrightarrow>
           outs ! c = map_option (\<lambda>w. wetMix' * w + dryMix' * ins ! c)
                        (generate dops k (ins ! c) (delayLines k ! c) (odd c))"
    and "c < length ins \<Longrightarrow> delayLines k' ! c = dl_write dops (ins ! c) (delayLines k ! c)"
    and "length ins \<le> c \<Longrightarrow> delayLines k' ! c = delayLines k ! c"
proof -
  note r = writeSample_from_result [OF assms [unfolded writeSample_def]]
  from r show "k' = k\<lparr>delayLines := delayLines k'\<rparr>" by blast
  from r show "length outs = length ins" by blast
  from r show "length (delayLines k') = length (delayLines k)" by blast
  from r have each: "\<forall>j < length ins.
               outs ! j = map_option (\<lambda>w. wetMix' * w + dryMix' * ins ! j)
                            (generate dops k (ins ! j) (delayLines k ! (0 + j)) (odd (0 + j)))
               \<and> delayLines k' ! (0 + j) = dl_write dops (ins ! j) (delayLines k ! (0 + j))"
    by blast
  from each show "c < length ins \<Longrightarrow>
           outs ! c = map_option (\<lambda>w. wetMix' * w + dryMix' * ins ! c)
                        (generate dops k (ins ! c) (delayLines k ! c) (odd c))"
    by simp
  from each show "c < length ins \<Longrightarrow> delayLines k' ! c = dl_write dops (ins ! c) (delayLines k ! c)"
    by simp
  from r have "\<forall>c. c < 0 \<or> 0 + length ins \<le> c \<longrightarrow> delayLines k' ! c = delayLines k ! c"
    by blast
  then show "length ins \<le> c \<Longrightarrow> delayLines k' ! c = delayLines k ! c" by simp
qed

lemma writeSample_total:
  "length ins \<le> length (delayLines k) \<Longrightarrow>
   \<exists>k' outs. writeSample dops ins odd90' wetMix' dryMix' k = Inr (k', outs)"
  unfolding writeSample_def by (rule writeSample_from_total) simp

text \<open>
  Which tap \<open>writeSample\<close> reads: channel \<open>c\<close> is read at the first component of each
  tap (the even tap) when \<open>c\<close> is odd, and at the second (the odd tap) when \<open>c\<close> is even;
  the wet sample is the mean of the \<open>lfoCount_\<close> reads.
\<close>

lemma writeSample_reads:
  assumes "writeSample dops ins odd90' wetMix' dryMix' k = Inr (k', outs)"
    and "c < length ins" and "0 < lfoCount k"
  shows "outs ! c =
           Some (wetMix' * ((\<Sum>index<lfoCount k.
                               dl_read dops (delayLines k ! c)
                                 (if odd c then fst (taps k ! index) else snd (taps k ! index)))
                            / real (lfoCount k))
                 + dryMix' * ins ! c)"
  using writeSample_result(4) [OF assms(1,2)] assms(3) by (simp add: generate_sum)

lemma writeSample_keeps:
  assumes "writeSample dops ins odd90' wetMix' dryMix' k = Inr (k', outs)"
  shows "rate k' = rate k" "depth k' = depth k" "delay k' = delay k" "dryMix k' = dryMix k"
    "wetMix k' = wetMix k" "odd90 k' = odd90 k" "maxDelayMilliseconds k' = maxDelayMilliseconds k"
    "lfos k' = lfos k" "taps k' = taps k" "lfoCount k' = lfoCount k"
    "samplesPerMillisecond k' = samplesPerMillisecond k"
  by (subst writeSample_result(1) [OF assms], simp)+

lemma writeSample_wf:
  assumes "writeSample dops ins odd90' wetMix' dryMix' k = Inr (k', outs)" "Kernel_wf k"
  shows "Kernel_wf k'"
  using assms(2) by (simp add: Kernel_wf_def writeSample_keeps [OF assms(1)])

subsection \<open>Rendering a block\<close>

lemma doRendering_one_frame_settled:
  assumes "noRampInProgress k"
    and "0 \<le> Percentage_normalized (depth k)" "Percentage_normalized (depth k) \<le> 1"
  shows "doRendering ops dops [ins] k =
           (case writeSample dops ins (Bool_get (odd90 k)) (Percentage_normalized (wetMix k))
                   (Percentage_normalized (dryMix k))
                   (calcTaps ops (Milliseconds_get (delay k))
                      (calcDisplacement k (Milliseconds_get (delay k)) (Percentage_normalized (depth k)))
                      (Bool_get (odd90 k)) k) of
              Inl e \<Rightarrow> Inl e
            | Inr (k', out) \<Rightarrow> Inr (k', [out]))"
proof -
  from assms(1) have s: "settled (delay k)" "settled (depth k)" "settled (wetMix k)" "settled (dryMix k)"
    by (simp_all add: noRampInProgress_def)
  have fv: "frameValue (delay k) = (target (delay k), delay k)"
    "frameValue (depth k) = (target (depth k), depth k)"
    "frameValue (wetMix k) = (target (wetMix k), wetMix k)"
    "frameValue (dryMix k) = (target (dryMix k), dryMix k)"
    using s by (simp_all add: frameValue_settled)
  have cur: "current (delay k) = target (delay k)" "current (depth k) = target (depth k)"
    "current (wetMix k) = target (wetMix k)" "current (dryMix k) = target (dryMix k)"
    using s by (simp_all add: settled_def)
  have id1: "k\<lparr>delay := delay k, depth := depth k\<rparr> = k" by simp
  have id2: "(calcTaps ops a b c k)\<lparr>wetMix := wetMix k, dryMix := dryMix k\<rparr> = calcTaps ops a b c k"
    for a b c
  proof -
    have "(calcTaps ops a b c k)\<lparr>wetMix := wetMix (calcTaps ops a b c k),
                                  dryMix := dryMix (calcTaps ops a b c k)\<rparr> = calcTaps ops a b c k"
      by simp
    then show ?thesis by (simp only: calcTaps_keeps)
  qed
  show ?thesis
    using assms(2,3)
    by (simp add: doRendering_def Let_def fv cur id1 id2 calcTaps_keeps
        Percentage_normalized_def Milliseconds_get_def param_get_def)
qed

lemma doRendering_loop_perSample:
  assumes "noRampInProgress k"
    and "0 \<le> Percentage_normalized (depth k)" "Percentage_normalized (depth k) \<le> 1"
  shows "doRendering_loop ops dops (Milliseconds_get (delay k))
           (calcDisplacement k (Milliseconds_get (delay k)) (Percentage_normalized (depth k)))
           (Bool_get (odd90 k)) (Percentage_normalized (wetMix k)) (Percentage_normalized (dryMix k))
           frames k
         = perSampleRendering ops dops frames k"
  using assms
proof (induction frames arbitrary: k)
  case Nil
  then show ?case by simp
next
  case (Cons ins frames)
  let ?nominal = "Milliseconds_get (delay k)"
  let ?disp = "calcDisplacement k ?nominal (Percentage_normalized (depth k))"
  let ?odd = "Bool_get (odd90 k)"
  let ?wet = "Percentage_normalized (wetMix k)"
  let ?dry = "Percentage_normalized (dryMix k)"
  let ?w = "writeSample dops ins ?odd ?wet ?dry (calcTaps ops ?nominal ?disp ?odd k)"
  note one = doRendering_one_frame_settled [OF Cons.prems, of ops dops ins]
  show ?case
  proof (cases ?w)
    case (Inl e)
    then show ?thesis by (simp add: one)
  next
    case (Inr r)
    obtain k' out where r: "r = (k', out)" by (cases r)
    note w = Inr [unfolded r]
    note keep = writeSample_keeps [OF w, unfolded calcTaps_keeps]
    have same: "Milliseconds_get (delay k') = ?nominal"
      "Percentage_normalized (depth k') = Percentage_normalized (depth k)"
      "Bool_get (odd90 k') = ?odd" "Percentage_normalized (wetMix k') = ?wet"
      "Percentage_normalized (dryMix k') = ?dry"
      "calcDisplacement k' a b = calcDisplacement k a b" for a b
      by (simp_all add: keep calcDisplacement_def)
    have nr: "noRampInProgress k'"
      using Cons.prems(1) by (simp add: noRampInProgress_def keep)
    have rng: "0 \<le> Percentage_normalized (depth k')" "Percentage_normalized (depth k') \<le> 1"
      using Cons.prems(2,3) by (simp_all add: same)
    from Cons.IH [OF nr rng]
    have IH: "doRendering_loop ops dops ?nominal ?disp ?odd ?wet ?dry frames k'
                = perSampleRendering ops dops frames k'"
      by (simp add: same)
    show ?thesis
      by (simp add: one w IH split: sum.splits)
  qed
qed

lemma doRendering_loop_total:
  "(\<forall>ins \<in> set frames. length ins \<le> length (delayLines k)) \<Longrightarrow>
   \<exists>k' outs. doRendering_loop ops dops nominal displacement odd90' wetMix' dryMix' frames k = Inr (k', outs)
             \<and> length outs = length frames"
proof (induction frames arbitrary: k)
  case Nil
  then show ?case by simp
next
  case (Cons ins frames)
  let ?k1 = "calcTaps ops nominal displacement odd90' k"
  have "length ins \<le> length (delayLines ?k1)" using Cons.prems by (simp add: calcTaps_keeps)
  from writeSample_total [OF this] obtain k2 out where
    w: "writeSample dops ins odd90' wetMix' dryMix' ?k1 = Inr (k2, out)" by blast
  have "length (delayLines k2) = length (delayLines k)"
    using writeSample_result(3) [OF w] by (simp add: calcTaps_keeps)
  with Cons.prems have "\<forall>ins \<in> set frames. length ins \<le> length (delayLines k2)" by simp
  from Cons.IH [OF this] obtain k' outs where
    "doRendering_loop ops dops nominal displacement odd90' wetMix' dryMix' frames k2 = Inr (k', outs)"
    "length outs = length frames" by blast
  with w show ?case by simp
qed

lemma doRendering_loop_taps:
  assumes "doRendering_loop ops dops nominal displacement odd90' wetMix' dryMix' frames k = Inr (k', outs)"
    and "Kernel_wf k" and "index < lfoCount k"
  shows "lfos k' ! index = (lfo_increment ops ^^ length frames) (lfos k ! index)
         \<and> (frames \<noteq> [] \<longrightarrow>
               taps k' ! index
                 = fst (calcTap ops (samplesPerMillisecond k)
                         ((lfo_increment ops ^^ (length frames - 1)) (lfos k ! index))
                         nominal displacement odd90'))
         \<and> lfoCount k' = lfoCount k \<and> samplesPerMillisecond k' = samplesPerMillisecond k
         \<and> maxDelayMilliseconds k' = maxDelayMilliseconds k"
  using assms
proof (induction frames arbitrary: k outs)
  case Nil
  then show ?case by simp
next
  case (Cons ins frames)
  let ?k1 = "calcTaps ops nominal displacement odd90' k"
  note wf = Cons.prems(2) and i = Cons.prems(3)
  from Cons.prems(1) obtain k2 out outs2 where
    w: "writeSample dops ins odd90' wetMix' dryMix' ?k1 = Inr (k2, out)"
    and rec: "doRendering_loop ops dops nominal displacement odd90' wetMix' dryMix' frames k2
                = Inr (k', outs2)"
    by (auto split: sum.splits)
  note keep = writeSample_keeps [OF w]
  have wf2: "Kernel_wf k2" by (rule writeSample_wf [OF w calcTaps_wf [OF wf]])
  have c2: "lfoCount k2 = lfoCount k" "samplesPerMillisecond k2 = samplesPerMillisecond k"
    "maxDelayMilliseconds k2 = maxDelayMilliseconds k"
    by (simp_all add: keep calcTaps_fields [OF wf] calcTaps_keeps)
  have i2: "index < lfoCount k2" using i by (simp add: c2)
  have l2: "lfos k2 ! index = lfo_increment ops (lfos k ! index)"
    by (simp add: keep calcTaps_active [OF wf i])
  have t2: "taps k2 ! index
              = fst (calcTap ops (samplesPerMillisecond k) (lfos k ! index) nominal displacement odd90')"
    by (simp add: keep calcTaps_active [OF wf i])
  note IH = Cons.IH [OF rec wf2 i2]
  have A: "lfos k' ! index = (lfo_increment ops ^^ length (ins # frames)) (lfos k ! index)"
    using IH by (simp add: l2 funpow_swap1)
  have B: "taps k' ! index
           = fst (calcTap ops (samplesPerMillisecond k)
                   ((lfo_increment ops ^^ (length (ins # frames) - 1)) (lfos k ! index))
                   nominal displacement odd90')"
  proof (cases "frames = []")
    case True
    with rec have "k' = k2" by simp
    then show ?thesis using True t2 by simp
  next
    case False
    then obtain n where n: "length frames = Suc n" by (cases frames) auto
    from IH False
    show ?thesis by (simp add: l2 c2 n funpow_swap1)
  qed
  have C: "lfoCount k' = lfoCount k" "samplesPerMillisecond k' = samplesPerMillisecond k"
    "maxDelayMilliseconds k' = maxDelayMilliseconds k"
    using IH by (simp_all add: c2)
  from A B C show ?case by simp
qed

lemma doRendering_block:
  assumes "\<not> isRamping k" "length frames \<noteq> 1" "doRendering ops dops frames k = Inr (k', outs)"
  shows "doRendering_loop ops dops (target (delay k))
           ((maxDelayMilliseconds k - target (delay k)) * target (depth k))
           (Bool_get (odd90 k)) (target (wetMix k)) (target (dryMix k)) frames k = Inr (k', outs)"
  using assms
  by (simp add: doRendering_def Let_def calcDisplacement_def Milliseconds_get_def
      Percentage_normalized_def param_get_def split: if_splits)

lemma doRendering_one_frame:
  assumes "doRendering ops dops [ins] k = Inr (k', outs)"
  shows "\<exists>k3. writeSample dops ins (Bool_get (odd90 k)) (current (wetMix k)) (current (dryMix k)) k3
                = Inr (k', hd outs)
              \<and> taps k3 = taps (calcTaps ops (current (delay k))
                                  ((maxDelayMilliseconds k - current (delay k)) * current (depth k))
                                  (Bool_get (odd90 k))
                                  (k\<lparr>delay := snd (frameValue (delay k)),
                                     depth := snd (frameValue (depth k))\<rparr>))
              \<and> lfos k3 = lfos (calcTaps ops (current (delay k))
                                  ((maxDelayMilliseconds k - current (delay k)) * current (depth k))
                                  (Bool_get (odd90 k))
                                  (k\<lparr>delay := snd (frameValue (delay k)),
                                     depth := snd (frameValue (depth k))\<rparr>))"
  using assms
  by (auto simp: doRendering_def Let_def calcDisplacement_def calcTaps_keeps
      split: if_splits sum.splits)

lemma doRendering_settled_total:
  assumes "noRampInProgress k" "mixesInRange k"
    and "\<forall>ins \<in> set frames. length ins \<le> length (delayLines k)"
  shows "\<exists>k' outs. doRendering ops dops frames k = Inr (k', outs) \<and> length outs = length frames"
proof -
  from assms(2) have rng: "0 \<le> Percentage_normalized (depth k)" "Percentage_normalized (depth k) \<le> 1"
    and mix: "0 \<le> Percentage_normalized (wetMix k)" "Percentage_normalized (wetMix k) \<le> 1"
      "0 \<le> Percentage_normalized (dryMix k)" "Percentage_normalized (dryMix k) \<le> 1"
    by (simp_all add: mixesInRange_def)
  from assms(1) have quiet: "\<not> isRamping k"
    by (simp add: noRampInProgress_def settled_def isRamping_def)
  show ?thesis
  proof (cases "length frames = 1")
    case True
    then obtain ins where f: "frames = [ins]" by (cases frames) auto
    let ?k1 = "calcTaps ops (Milliseconds_get (delay k))
                 (calcDisplacement k (Milliseconds_get (delay k)) (Percentage_normalized (depth k)))
                 (Bool_get (odd90 k)) k"
    have "length ins \<le> length (delayLines ?k1)" using assms(3) f by (simp add: calcTaps_keeps)
    from writeSample_total [OF this] obtain k' out where
      "writeSample dops ins (Bool_get (odd90 k)) (Percentage_normalized (wetMix k))
         (Percentage_normalized (dryMix k)) ?k1 = Inr (k', out)" by blast
    then show ?thesis
      by (simp add: f doRendering_one_frame_settled [OF assms(1) rng])
  next
    case False
    from doRendering_loop_total [OF assms(3)] show ?thesis
      using False quiet rng mix by (simp add: doRendering_def Let_def)
  qed
qed

lemma doRendering_increments:
  assumes "doRendering ops dops frames k = Inr (k', outs)" and "Kernel_wf k" and "index < lfoCount k"
  shows "lfos k' ! index = (lfo_increment ops ^^ length frames) (lfos k ! index)"
proof (cases "isRamping k \<or> length frames = 1")
  case True
  with assms(1) have "length frames = 1"
    by (auto simp: doRendering_def Let_def split: if_splits)
  then obtain ins where f: "frames = [ins]" by (cases frames) auto
  let ?k1 = "k\<lparr>delay := snd (frameValue (delay k)), depth := snd (frameValue (depth k))\<rparr>"
  from doRendering_one_frame [OF assms(1) [unfolded f]] obtain k3 where
    w: "writeSample dops ins (Bool_get (odd90 k)) (current (wetMix k)) (current (dryMix k)) k3
          = Inr (k', hd outs)"
    and l3: "lfos k3 = lfos (calcTaps ops (current (delay k))
                                ((maxDelayMilliseconds k - current (delay k)) * current (depth k))
                                (Bool_get (odd90 k)) ?k1)"
    by blast
  have wf1: "Kernel_wf ?k1" using assms(2) by (simp add: Kernel_wf_def)
  have "index < lfoCount ?k1" using assms(3) by simp
  from calcTaps_active(2) [OF wf1 this] show ?thesis
    by (simp add: writeSample_keeps [OF w] l3 f)
next
  case False
  then have q: "\<not> isRamping k" "length frames \<noteq> 1" by simp_all
  from doRendering_loop_taps [OF doRendering_block [OF q assms(1)] assms(2,3)]
  show ?thesis by simp
qed

subsection \<open>Constructor and initialize\<close>

lemma Kernel_new_ok:
  "lfoCount' \<le> MAX_LFOS \<Longrightarrow>
   \<exists>k. Kernel_new ops nm lfoCount' = Inr k \<and> lfoCount k = lfoCount' \<and> Kernel_wf k
       \<and> delayLines k = []"
  by (simp add: Kernel_new_def Kernel_wf_def)

lemma initialize_fields:
  "lfoCount (initialize ops dops channelCount sampleRate' maxDelayMilliseconds' k) = lfoCount k"
  "taps (initialize ops dops channelCount sampleRate' maxDelayMilliseconds' k) = taps k"
  "length (lfos (initialize ops dops channelCount sampleRate' maxDelayMilliseconds' k)) = length (lfos k)"
  "length (delayLines (initialize ops dops channelCount sampleRate' maxDelayMilliseconds' k))
     = nat channelCount"
  "samplesPerMillisecond (initialize ops dops channelCount sampleRate' maxDelayMilliseconds' k)
     = sampleRate' / 1000"
  "maxDelayMilliseconds (initialize ops dops channelCount sampleRate' maxDelayMilliseconds' k)
     = maxDelayMilliseconds'"
  by (simp_all add: initialize_def Let_def)

lemma initialize_lfos:
  assumes "index < length (lfos k)"
  shows "lfos (initialize ops dops channelCount sampleRate' maxDelayMilliseconds' k) ! index =
           lfo_setPhase ops 0
             (lfo_setFrequency ops (Milliseconds_get (rate k)) 0
               (lfo_setWaveform ops sinusoid (lfo_setSampleRate ops sampleRate' (lfos k ! index))))"
  using assms by (simp add: initialize_def initialize_lfo_def Let_def)

subsection \<open>The concrete states\<close>

lemma exampleLFO_value: "lfo_value LFO_ops exampleLFO = 1"
  by (simp add: LFO_ops_def exampleLFO_def waveformValue_def)

lemma exampleLFO_quadPhaseValue: "lfo_quadPhaseValue LFO_ops exampleLFO = 0"
  by (simp add: LFO_ops_def exampleLFO_def waveformValue_def frac_def)

lemma exampleLFO_incremented_value: "lfo_value LFO_ops (lfo_increment LFO_ops exampleLFO) = 123 / 125"
  by (simp add: LFO_ops_def exampleLFO_def waveformValue_def frameValue_def
      RampingParameter_init_def frac_def)

lemma exampleDelayBuffer_read_6: "dl_read DelayBuffer_ops exampleDelayBuffer 6 = 2"
  by (simp add: DelayBuffer_ops_def DelayBuffer_read_def DelayBuffer_at_def
      exampleDelayBuffer_def Let_def)

lemma exampleDelayBuffer_read_4: "dl_read DelayBuffer_ops exampleDelayBuffer 4 = 4"
  by (simp add: DelayBuffer_ops_def DelayBuffer_read_def DelayBuffer_at_def
      exampleDelayBuffer_def Let_def)

lemma exampleKernel_wf: "Kernel_wf exampleKernel"
  by (simp add: Kernel_wf_def exampleKernel_def MAX_LFOS_def)

lemma exampleKernel_fields:
  "lfoCount exampleKernel = 2" "samplesPerMillisecond exampleKernel = 1"
  "maxDelayMilliseconds exampleKernel = 8"
  "delayLines exampleKernel = [exampleDelayBuffer, exampleDelayBuffer]"
  "index < MAX_LFOS \<Longrightarrow> lfos exampleKernel ! index = exampleLFO"
  by (simp_all add: exampleKernel_def)

lemma exampleKernel_settled: "noRampInProgress exampleKernel" "mixesInRange exampleKernel"
  by (simp_all add: noRampInProgress_def settled_def mixesInRange_def Percentage_normalized_def
      param_get_def exampleKernel_def RampingParameter_init_def)

lemma exampleKernel_parameters:
  "\<not> isRamping exampleKernel"
  "current (delay exampleKernel) = 4" "target (delay exampleKernel) = 4"
  "current (depth exampleKernel) = 1 / 2" "target (depth exampleKernel) = 1 / 2"
  by (simp_all add: isRamping_def exampleKernel_def RampingParameter_init_def)

lemma exampleKernel_taps:
  "index < 2 \<Longrightarrow> taps (calcTaps LFO_ops 4 2 True exampleKernel) ! index = (6, 4)"
  using exampleKernel_wf exampleKernel_wf [unfolded Kernel_wf_def]
  by (simp add: calcTaps_eq exampleKernel_fields nth_append calcTap_def Let_def MAX_LFOS_def
      exampleLFO_value exampleLFO_quadPhaseValue)

lemma exampleKernel_calcTaps_fields:
  "lfoCount (calcTaps LFO_ops 4 2 True exampleKernel) = 2"
  "delayLines (calcTaps LFO_ops 4 2 True exampleKernel) = [exampleDelayBuffer, exampleDelayBuffer]"
  using exampleKernel_wf by (simp_all add: calcTaps_eq exampleKernel_fields)

lemma exampleMonoKernel_frame:
  "\<exists>m'. Kernel_hpp_frame LFO_ops DelayBuffer_ops True [10, 20] exampleMonoKernel = Inr (m', [6, 12])"
  by (simp add: Kernel_hpp_frame_def Kernel_hpp_taps_def Kernel_hpp_displacement_def
      exampleMonoKernel_def RampingParameter_init_def frameValue_def Let_def
      exampleLFO_value exampleLFO_quadPhaseValue
      exampleDelayBuffer_read_6 exampleDelayBuffer_read_4)

section \<open>The claims\<close>

subsection \<open>Tap offsets\<close>

text \<open>
  Claim C1, as amended. In the N-oscillator kernel, \<open>calcTaps\<close> gives every active
  oscillator (index below \<open>lfoCount_\<close>) the even tap \<open>(nominal + value() * displacement) *
  samplesPerMillisecond_\<close> and the odd tap \<open>(nominal + quadPhaseValue() * displacement) *
  samplesPerMillisecond_\<close> when \<open>odd90\<close> is on, the even tap otherwise; both values are read
  from the oscillator as it was before the call, and the oscillator afterwards is that one
  incremented once; the other oscillators are left alone. A block that \<open>doRendering\<close>
  renders leaves every active oscillator incremented once per frame. In the
  single-oscillator kernel of \<open>Kernel.hpp\<close>, a frame that renders reads channel \<open>c\<close> at
  \<open>nominal + value() * displacement\<close>, or, when \<open>c\<close> is odd and \<open>odd90\<close> is on, at
  \<open>nominal + quadPhaseValue() * displacement\<close>, with no factor \<open>samplesPerMillisecond_\<close>,
  and leaves the oscillator incremented once.
\<close>

theorem calcTaps_even_odd_increment:
  "(Kernel_wf k \<longrightarrow>
      (\<forall>index < lfoCount k.
         taps (calcTaps ops nominal displacement odd90' k) ! index =
           ((nominal + lfo_value ops (lfos k ! index) * displacement) * samplesPerMillisecond k,
            if odd90'
            then (nominal + lfo_quadPhaseValue ops (lfos k ! index) * displacement)
                 * samplesPerMillisecond k
            else (nominal + lfo_value ops (lfos k ! index) * displacement) * samplesPerMillisecond k)
         \<and> lfos (calcTaps ops nominal displacement odd90' k) ! index
             = lfo_increment ops (lfos k ! index))
      \<and> (\<forall>index. lfoCount k \<le> index \<longrightarrow>
            lfos (calcTaps ops nominal displacement odd90' k) ! index = lfos k ! index))
   \<and> (Kernel_wf k \<longrightarrow> doRendering ops dops frames k = Inr (k', outs) \<longrightarrow>
        (\<forall>index < lfoCount k.
           lfos k' ! index = (lfo_increment ops ^^ length frames) (lfos k ! index)))
   \<and> (Kernel_hpp_frame ops dops odd90' ins m = Inr (m', out) \<longrightarrow>
        lfo m' = lfo_increment ops (lfo m)
        \<and> (\<forall>c < length ins.
              out ! c =
                current (wetMix m)
                * dl_read dops (delayLines m ! c)
                    (if odd c \<and> odd90'
                     then lfo_quadPhaseValue ops (lfo m) * (current (delay m) * current (depth m))
                          + current (delay m)
                     else lfo_value ops (lfo m) * (current (delay m) * current (depth m))
                          + current (delay m))
                + current (dryMix m) * ins ! c))"
proof (intro conjI impI allI)
  fix index
  assume wf: "Kernel_wf k"
  then have len: "lfoCount k \<le> length (lfos k)" by (simp add: Kernel_wf_def)
  {
    assume i: "index < lfoCount k"
    show "taps (calcTaps ops nominal displacement odd90' k) ! index =
           ((nominal + lfo_value ops (lfos k ! index) * displacement) * samplesPerMillisecond k,
            if odd90'
            then (nominal + lfo_quadPhaseValue ops (lfos k ! index) * displacement)
                 * samplesPerMillisecond k
            else (nominal + lfo_value ops (lfos k ! index) * displacement) * samplesPerMillisecond k)"
      using i len by (simp add: calcTaps_eq [OF wf] nth_append calcTap_def Let_def)
    show "lfos (calcTaps ops nominal displacement odd90' k) ! index = lfo_increment ops (lfos k ! index)"
      using i len by (simp add: calcTaps_eq [OF wf] nth_append)
  }
  {
    assume i: "lfoCount k \<le> index"
    show "lfos (calcTaps ops nominal displacement odd90' k) ! index = lfos k ! index"
    proof (cases "index < length (lfos k)")
      case True
      then show ?thesis using i len by (simp add: calcTaps_eq [OF wf] nth_append min_def)
    next
      case False
      then show ?thesis using i len
        by (simp add: calcTaps_eq [OF wf] nth_append min_def)
    qed
  }
next
  fix index
  assume wf: "Kernel_wf k" and r: "doRendering ops dops frames k = Inr (k', outs)"
    and i: "index < lfoCount k"
  show "lfos k' ! index = (lfo_increment ops ^^ length frames) (lfos k ! index)"
    by (rule doRendering_increments [OF r wf i])
next
  assume r: "Kernel_hpp_frame ops dops odd90' ins m = Inr (m', out)"
  let ?tap = "current (delay m)"
  let ?disp = "current (delay m) * current (depth m)"
  let ?m2 = "m\<lparr>delay := snd (frameValue (delay m)), depth := snd (frameValue (depth m)),
               wetMix := snd (frameValue (wetMix m)), dryMix := snd (frameValue (dryMix m)),
               lfo := lfo_increment ops (lfo m)\<rparr>"
  from r obtain dls where
    ch: "Kernel_hpp_channels dops odd90'
           (lfo_value ops (lfo m) * ?disp + ?tap) (lfo_quadPhaseValue ops (lfo m) * ?disp + ?tap)
           (current (wetMix m)) (current (dryMix m)) 0 ins (delayLines m) = Inr (dls, out)"
    and m': "m' = ?m2\<lparr>delayLines := dls\<rparr>"
    by (auto simp: Kernel_hpp_frame_def Kernel_hpp_taps_def Kernel_hpp_displacement_def Let_def
        split: if_splits sum.splits)
  show "lfo m' = lfo_increment ops (lfo m)" by (simp add: m')
  fix c
  assume "c < length ins"
  with Kernel_hpp_channels_result [OF ch]
  show "out ! c =
          current (wetMix m)
          * dl_read dops (delayLines m ! c)
              (if odd c \<and> odd90'
               then lfo_quadPhaseValue ops (lfo m) * (current (delay m) * current (depth m))
                    + current (delay m)
               else lfo_value ops (lfo m) * (current (delay m) * current (depth m))
                    + current (delay m))
          + current (dryMix m) * ins ! c"
    by auto
qed

theorem calcTaps_even_odd_increment_witness:
  "Kernel_wf exampleKernel \<and> 1 < lfoCount exampleKernel
   \<and> taps (calcTaps LFO_ops 4 2 True exampleKernel) ! 1 = (6, 4)
   \<and> lfos (calcTaps LFO_ops 4 2 True exampleKernel) ! 1 = lfo_increment LFO_ops exampleLFO
   \<and> lfos (calcTaps LFO_ops 4 2 True exampleKernel) ! 2 = exampleLFO
   \<and> (\<exists>k' outs. doRendering LFO_ops DelayBuffer_ops [[10, 20], [30, 40]] exampleKernel = Inr (k', outs)
                 \<and> lfos k' ! 1 = lfo_increment LFO_ops (lfo_increment LFO_ops exampleLFO))
   \<and> (\<exists>m'. Kernel_hpp_frame LFO_ops DelayBuffer_ops True [10, 20] exampleMonoKernel = Inr (m', [6, 12])
            \<and> lfo m' = lfo_increment LFO_ops exampleLFO)"
proof -
  obtain m' where
    fr: "Kernel_hpp_frame LFO_ops DelayBuffer_ops True [10, 20] exampleMonoKernel = Inr (m', [6, 12])"
    using exampleMonoKernel_frame by blast
  have m: "lfo exampleMonoKernel = exampleLFO" by (simp add: exampleMonoKernel_def)
  have l: "lfos exampleKernel ! Suc 0 = exampleLFO" "lfos exampleKernel ! 2 = exampleLFO"
    by (simp_all add: exampleKernel_fields MAX_LFOS_def)
  have "\<forall>ins \<in> set [[10, 20], [30, 40 :: real]]. length ins \<le> length (delayLines exampleKernel)"
    by (simp add: exampleKernel_fields)
  from doRendering_settled_total [OF exampleKernel_settled this] obtain k2 outs2 where
    r2: "doRendering LFO_ops DelayBuffer_ops [[10, 20], [30, 40]] exampleKernel = Inr (k2, outs2)"
    by blast
  note t = calcTaps_even_odd_increment [of exampleKernel LFO_ops 4 2 True DelayBuffer_ops
      "[[10, 20], [30, 40]]" k2 outs2 "[10, 20]" exampleMonoKernel m' "[6, 12]"]
  from t exampleKernel_wf r2 have
    "\<forall>index < lfoCount exampleKernel.
       lfos k2 ! index = (lfo_increment LFO_ops ^^ length [[10, 20], [30, 40 :: real]])
                           (lfos exampleKernel ! index)"
    by blast
  then have blk: "lfos k2 ! 1 = lfo_increment LFO_ops (lfo_increment LFO_ops exampleLFO)"
    by (simp add: exampleKernel_fields l numeral_2_eq_2)
  from t exampleKernel_wf have
    active: "\<forall>index < lfoCount exampleKernel.
         taps (calcTaps LFO_ops 4 2 True exampleKernel) ! index =
           ((4 + lfo_value LFO_ops (lfos exampleKernel ! index) * 2) * samplesPerMillisecond exampleKernel,
            if True
            then (4 + lfo_quadPhaseValue LFO_ops (lfos exampleKernel ! index) * 2)
                 * samplesPerMillisecond exampleKernel
            else (4 + lfo_value LFO_ops (lfos exampleKernel ! index) * 2)
                 * samplesPerMillisecond exampleKernel)
         \<and> lfos (calcTaps LFO_ops 4 2 True exampleKernel) ! index
             = lfo_increment LFO_ops (lfos exampleKernel ! index)"
    and inactive: "\<forall>index. lfoCount exampleKernel \<le> index \<longrightarrow>
            lfos (calcTaps LFO_ops 4 2 True exampleKernel) ! index = lfos exampleKernel ! index"
    by blast+
  have "(1::nat) < lfoCount exampleKernel" by (simp add: exampleKernel_fields)
  with active have
    "taps (calcTaps LFO_ops 4 2 True exampleKernel) ! 1 = (6, 4)"
    "lfos (calcTaps LFO_ops 4 2 True exampleKernel) ! 1 = lfo_increment LFO_ops exampleLFO"
    by (simp_all add: l exampleKernel_fields exampleLFO_value exampleLFO_quadPhaseValue)
  moreover have "lfoCount exampleKernel \<le> 2" by (simp add: exampleKernel_fields)
  with inactive have "lfos (calcTaps LFO_ops 4 2 True exampleKernel) ! 2 = exampleLFO"
    by (simp add: l)
  moreover from t fr have "lfo m' = lfo_increment LFO_ops exampleLFO"
    by (simp add: m)
  ultimately show ?thesis
    using exampleKernel_wf fr r2 blk by (auto simp: exampleKernel_fields)
qed

text \<open>
  The claim as stated fails on \<open>Kernel.hpp\<close>: with nominal delay 4, displacement 2, an
  oscillator value of 1 and 44.1 samples per millisecond the even tap is 6, not 264.6.
\<close>

theorem Kernel_hpp_tap_not_in_samples:
  "fst (Kernel_hpp_taps LFO_ops (lfo exampleMonoKernel) 4 2)
     \<noteq> (4 + lfo_value LFO_ops (lfo exampleMonoKernel) * 2) * samplesPerMillisecond exampleMonoKernel"
proof -
  have m: "lfo exampleMonoKernel = exampleLFO" "samplesPerMillisecond exampleMonoKernel = 441 / 10"
    by (simp_all add: exampleMonoKernel_def)
  show ?thesis by (simp add: m Kernel_hpp_taps_def exampleLFO_value)
qed

subsection \<open>Displacement\<close>

text \<open>
  Claim C2, as amended. In the N-oscillator kernel, the taps that \<open>doRendering\<close> leaves
  after a block are those of the block's last sample, and they are computed with the
  displacement \<open>(maxDelayMilliseconds_ - nominal) * displacementFraction\<close>, where the
  nominal delay and the fraction are the per-frame values of the delay and depth parameters
  in the per-sample branch and their settled values in the per-block branch. In the
  single-oscillator kernel of \<open>Kernel.hpp\<close> the displacement is \<open>nominal *
  displacementFraction\<close>, and in that of \<open>src/unnamed/part_001\<close> it is \<open>max (nominal -
  0.001) 0 * displacementFraction\<close>.
\<close>

theorem displacement_of_each_kernel:
  "(Kernel_wf k \<longrightarrow> frames \<noteq> [] \<longrightarrow> doRendering ops dops frames k = Inr (k', outs) \<longrightarrow>
      (let nominal = (if isRamping k \<or> length frames = 1 then current (delay k) else target (delay k));
           displacementFraction =
             (if isRamping k \<or> length frames = 1 then current (depth k) else target (depth k));
           displacement = (maxDelayMilliseconds k - nominal) * displacementFraction
       in calcDisplacement k nominal displacementFraction = displacement
          \<and> (\<forall>index < lfoCount k.
                fst (taps k' ! index) =
                  (nominal
                   + lfo_value ops ((lfo_increment ops ^^ (length frames - 1)) (lfos k ! index))
                     * displacement)
                  * samplesPerMillisecond k)))
   \<and> (Kernel_hpp_frame ops dops odd90' ins m = Inr (m', out) \<longrightarrow>
        Kernel_hpp_channels dops odd90'
          (lfo_value ops (lfo m) * (current (delay m) * current (depth m)) + current (delay m))
          (lfo_quadPhaseValue ops (lfo m) * (current (delay m) * current (depth m)) + current (delay m))
          (current (wetMix m)) (current (dryMix m)) 0 ins (delayLines m) = Inr (delayLines m', out))
   \<and> Kernel_hpp_displacement tap displacementFraction' = tap * displacementFraction'
   \<and> (part_001_renderFrames ops dops frames' m = Inr (m'', outs') \<longrightarrow>
        part_001_frames ops dops (Bool_get (odd90 m)) (current (delay m))
          (max (current (delay m) - 1 / 1000) 0 * current (depth m))
          (current (wetMix m)) (current (dryMix m)) frames'
          (m\<lparr>delay := snd (frameValue (delay m)), depth := snd (frameValue (depth m)),
             wetMix := snd (frameValue (wetMix m)), dryMix := snd (frameValue (dryMix m))\<rparr>)
          = Inr (m'', outs'))
   \<and> part_001_displacement tap displacementFraction' = max (tap - 1 / 1000) 0 * displacementFraction'"
proof (intro conjI impI)
  assume wf: "Kernel_wf k" and ne: "frames \<noteq> []"
    and r: "doRendering ops dops frames k = Inr (k', outs)"
  show "let nominal = (if isRamping k \<or> length frames = 1 then current (delay k) else target (delay k));
           displacementFraction =
             (if isRamping k \<or> length frames = 1 then current (depth k) else target (depth k));
           displacement = (maxDelayMilliseconds k - nominal) * displacementFraction
       in calcDisplacement k nominal displacementFraction = displacement
          \<and> (\<forall>index < lfoCount k.
                fst (taps k' ! index) =
                  (nominal
                   + lfo_value ops ((lfo_increment ops ^^ (length frames - 1)) (lfos k ! index))
                     * displacement)
                  * samplesPerMillisecond k)"
  proof (cases "isRamping k \<or> length frames = 1")
    case True
    with r have one: "length frames = 1"
      by (auto simp: doRendering_def Let_def split: if_splits)
    then obtain ins where f: "frames = [ins]" by (cases frames) auto
    let ?k1 = "k\<lparr>delay := snd (frameValue (delay k)), depth := snd (frameValue (depth k))\<rparr>"
    from doRendering_one_frame [OF r [unfolded f]] obtain k3 where
      w: "writeSample dops ins (Bool_get (odd90 k)) (current (wetMix k)) (current (dryMix k)) k3
            = Inr (k', hd outs)"
      and t3: "taps k3 = taps (calcTaps ops (current (delay k))
                                  ((maxDelayMilliseconds k - current (delay k)) * current (depth k))
                                  (Bool_get (odd90 k)) ?k1)"
      by blast
    have wf1: "Kernel_wf ?k1" using wf by (simp add: Kernel_wf_def)
    have "fst (taps k' ! index) =
            (current (delay k)
             + lfo_value ops (lfos k ! index)
               * ((maxDelayMilliseconds k - current (delay k)) * current (depth k)))
            * samplesPerMillisecond k" if "index < lfoCount k" for index
    proof -
      have "index < lfoCount ?k1" using that by simp
      from calcTaps_active(1) [OF wf1 this] show ?thesis
        by (simp add: writeSample_keeps [OF w] t3 calcTap_def Let_def)
    qed
    then show ?thesis using True f by (simp add: calcDisplacement_def)
  next
    case False
    then have q: "\<not> isRamping k" "length frames \<noteq> 1" by simp_all
    note loop = doRendering_block [OF q r]
    have "fst (taps k' ! index) =
            (target (delay k)
             + lfo_value ops ((lfo_increment ops ^^ (length frames - 1)) (lfos k ! index))
               * ((maxDelayMilliseconds k - target (delay k)) * target (depth k)))
            * samplesPerMillisecond k" if "index < lfoCount k" for index
      using doRendering_loop_taps [OF loop wf that] ne by (simp add: calcTap_def Let_def)
    then show ?thesis using False by (simp add: calcDisplacement_def)
  qed
next
  assume r: "Kernel_hpp_frame ops dops odd90' ins m = Inr (m', out)"
  then show "Kernel_hpp_channels dops odd90'
          (lfo_value ops (lfo m) * (current (delay m) * current (depth m)) + current (delay m))
          (lfo_quadPhaseValue ops (lfo m) * (current (delay m) * current (depth m)) + current (delay m))
          (current (wetMix m)) (current (dryMix m)) 0 ins (delayLines m) = Inr (delayLines m', out)"
    by (auto simp: Kernel_hpp_frame_def Kernel_hpp_taps_def Kernel_hpp_displacement_def Let_def
        split: if_splits sum.splits)
next
  show "Kernel_hpp_displacement tap displacementFraction' = tap * displacementFraction'"
    by (simp add: Kernel_hpp_displacement_def)
next
  assume "part_001_renderFrames ops dops frames' m = Inr (m'', outs')"
  then show "part_001_frames ops dops (Bool_get (odd90 m)) (current (delay m))
          (max (current (delay m) - 1 / 1000) 0 * current (depth m))
          (current (wetMix m)) (current (dryMix m)) frames'
          (m\<lparr>delay := snd (frameValue (delay m)), depth := snd (frameValue (depth m)),
             wetMix := snd (frameValue (wetMix m)), dryMix := snd (frameValue (dryMix m))\<rparr>)
          = Inr (m'', outs')"
    by (simp add: part_001_renderFrames_def part_001_displacement_def Let_def split: if_splits)
next
  show "part_001_displacement tap displacementFraction' = max (tap - 1 / 1000) 0 * displacementFraction'"
    by (simp add: part_001_displacement_def)
qed

theorem displacement_of_each_kernel_witness:
  "Kernel_wf exampleKernel \<and> [[10, 20], [30, 40 :: real]] \<noteq> []
   \<and> (\<exists>k' outs. doRendering LFO_ops DelayBuffer_ops [[10, 20]] exampleKernel = Inr (k', outs)
                 \<and> fst (taps k' ! 0) = (4 + 1 * ((8 - 4) * (1 / 2))) * 1)
   \<and> (\<exists>k' outs. doRendering LFO_ops DelayBuffer_ops [[10, 20], [30, 40]] exampleKernel = Inr (k', outs)
                 \<and> fst (taps k' ! 0) = (4 + 123 / 125 * ((8 - 4) * (1 / 2))) * 1)
   \<and> (\<exists>m' out. Kernel_hpp_frame LFO_ops DelayBuffer_ops True [10, 20] exampleMonoKernel = Inr (m', out)
                \<and> Kernel_hpp_channels DelayBuffer_ops True (1 * (4 * (1 / 2)) + 4) (0 * (4 * (1 / 2)) + 4)
                     (1 / 2) (1 / 2) 0 [10, 20] [exampleDelayBuffer, exampleDelayBuffer]
                   = Inr (delayLines m', out))
   \<and> (\<exists>m' outs. part_001_renderFrames LFO_ops DelayBuffer_ops [[10, 20]] exampleMonoKernel
                   = Inr (m', outs)
                 \<and> part_001_frames LFO_ops DelayBuffer_ops True 4 (max (4 - 1 / 1000) 0 * (1 / 2))
                     (1 / 2) (1 / 2) [[10, 20]] exampleMonoKernel = Inr (m', outs))"
proof -
  note wf = exampleKernel_wf
  have l0: "lfos exampleKernel ! 0 = exampleLFO" by (simp add: exampleKernel_fields MAX_LFOS_def)
  have i0: "0 < lfoCount exampleKernel" by (simp add: exampleKernel_fields)
  have len1: "\<forall>ins \<in> set [[10, 20 :: real]]. length ins \<le> length (delayLines exampleKernel)"
    and len2: "\<forall>ins \<in> set [[10, 20], [30, 40 :: real]]. length ins \<le> length (delayLines exampleKernel)"
    by (simp_all add: exampleKernel_fields)
  from doRendering_settled_total [OF exampleKernel_settled len1] obtain k1 outs1 where
    r1: "doRendering LFO_ops DelayBuffer_ops [[10, 20]] exampleKernel = Inr (k1, outs1)" by blast
  from doRendering_settled_total [OF exampleKernel_settled len2] obtain k2 outs2 where
    r2: "doRendering LFO_ops DelayBuffer_ops [[10, 20], [30, 40]] exampleKernel = Inr (k2, outs2)"
    by blast
  obtain m1 out1 where
    f1: "Kernel_hpp_frame LFO_ops DelayBuffer_ops True [10, 20] exampleMonoKernel = Inr (m1, out1)"
    using exampleMonoKernel_frame by blast
  have mono: "lfo exampleMonoKernel = exampleLFO" "current (delay exampleMonoKernel) = 4"
    "current (depth exampleMonoKernel) = 1 / 2" "current (wetMix exampleMonoKernel) = 1 / 2"
    "current (dryMix exampleMonoKernel) = 1 / 2"
    "delayLines exampleMonoKernel = [exampleDelayBuffer, exampleDelayBuffer]"
    "Bool_get (odd90 exampleMonoKernel)"
    "snd (frameValue (delay exampleMonoKernel)) = delay exampleMonoKernel"
    "snd (frameValue (depth exampleMonoKernel)) = depth exampleMonoKernel"
    "snd (frameValue (wetMix exampleMonoKernel)) = wetMix exampleMonoKernel"
    "snd (frameValue (dryMix exampleMonoKernel)) = dryMix exampleMonoKernel"
    by (simp_all add: exampleMonoKernel_def RampingParameter_init_def Bool_get_def param_get_def
        frameValue_def)
  obtain m2 outs3 where
    p1: "part_001_renderFrames LFO_ops DelayBuffer_ops [[10, 20]] exampleMonoKernel = Inr (m2, outs3)"
    by (simp add: part_001_renderFrames_def part_001_displacement_def Let_def
        exampleMonoKernel_def RampingParameter_init_def frameValue_def)
  note t1 = displacement_of_each_kernel [of exampleKernel "[[10, 20]]" LFO_ops DelayBuffer_ops
      k1 outs1 True "[10, 20]" exampleMonoKernel m1 out1 4 "1 / 2" "[[10, 20]]" m2 outs3]
  note t2 = displacement_of_each_kernel [of exampleKernel "[[10, 20], [30, 40]]" LFO_ops DelayBuffer_ops
      k2 outs2 True "[10, 20]" exampleMonoKernel m1 out1 4 "1 / 2" "[[10, 20]]" m2 outs3]
  from t1 wf r1 i0 have a: "fst (taps k1 ! 0) = (4 + 1 * ((8 - 4) * (1 / 2))) * 1"
    by (simp add: Let_def exampleKernel_parameters exampleKernel_fields l0 exampleLFO_value)
  from t2 wf r2 i0 have b: "fst (taps k2 ! 0) = (4 + 123 / 125 * ((8 - 4) * (1 / 2))) * 1"
    by (simp add: Let_def exampleKernel_parameters exampleKernel_fields l0
        exampleLFO_incremented_value)
  from t1 f1 have c: "Kernel_hpp_channels DelayBuffer_ops True (1 * (4 * (1 / 2)) + 4) (0 * (4 * (1 / 2)) + 4)
                     (1 / 2) (1 / 2) 0 [10, 20] [exampleDelayBuffer, exampleDelayBuffer]
                   = Inr (delayLines m1, out1)"
    by (simp add: mono exampleLFO_value exampleLFO_quadPhaseValue)
  from t1 p1 have d: "part_001_frames LFO_ops DelayBuffer_ops True 4 (max (4 - 1 / 1000) 0 * (1 / 2))
                     (1 / 2) (1 / 2) [[10, 20]] exampleMonoKernel = Inr (m2, outs3)"
    by (simp add: mono)
  have ne: "[[10, 20], [30, 40 :: real]] \<noteq> []" by simp
  from wf ne r1 a r2 b f1 c p1 d show ?thesis by blast
qed

text \<open>
  The claim as stated fails on the single-oscillator kernels: initialised with a maximum
  delay of 50 ms, with a nominal delay of 4 ms and a depth of one half, the displacement is
  2 in \<open>Kernel.hpp\<close> and 1.9995 in \<open>src/unnamed/part_001\<close>, not (50 - 4) / 2 = 23.
\<close>

theorem single_oscillator_displacement_ignores_max_delay:
  "Kernel_hpp_displacement
      (current (delay (Kernel_hpp_initialize LFO_ops DelayBuffer_ops 2 44100 50 exampleMonoKernel)))
      (current (depth (Kernel_hpp_initialize LFO_ops DelayBuffer_ops 2 44100 50 exampleMonoKernel)))
     \<noteq> (50 - current (delay (Kernel_hpp_initialize LFO_ops DelayBuffer_ops 2 44100 50 exampleMonoKernel)))
        * current (depth (Kernel_hpp_initialize LFO_ops DelayBuffer_ops 2 44100 50 exampleMonoKernel))
   \<and> part_001_displacement
      (current (delay (Kernel_hpp_initialize LFO_ops DelayBuffer_ops 2 44100 50 exampleMonoKernel)))
      (current (depth (Kernel_hpp_initialize LFO_ops DelayBuffer_ops 2 44100 50 exampleMonoKernel)))
     \<noteq> (50 - current (delay (Kernel_hpp_initialize LFO_ops DelayBuffer_ops 2 44100 50 exampleMonoKernel)))
        * current (depth (Kernel_hpp_initialize LFO_ops DelayBuffer_ops 2 44100 50 exampleMonoKernel))"
  by (simp add: Kernel_hpp_initialize_def Let_def Kernel_hpp_displacement_def part_001_displacement_def
      exampleMonoKernel_def RampingParameter_init_def)

subsection \<open>Which tap a channel reads\<close>

text \<open>
  Claim C3 at a failing input: two oscillators with even tap 6 and odd tap 4 (\<open>odd90\<close> on),
  two channels whose delay lines hold 2 at offset 6 and 4 at offset 4, input frame
  \<open>[10, 20]\<close>, both mixes one half. Channel 0 is read at the odd tap (wet sample 4, output
  7) and channel 1 at the even tap (wet sample 2, output 11); read as the claim says, the
  outputs would be 6 and 12.
\<close>

theorem writeSample_even_channel_reads_odd_tap:
  "\<exists>k'. writeSample DelayBuffer_ops [10, 20] True (1 / 2) (1 / 2)
           (calcTaps LFO_ops 4 2 True exampleKernel) = Inr (k', [Some 7, Some 11])"
proof -
  let ?k = "calcTaps LFO_ops 4 2 True exampleKernel"
  have "length [10, 20 :: real] \<le> length (delayLines ?k)"
    by (simp add: exampleKernel_calcTaps_fields)
  from writeSample_total [OF this] obtain k' outs where
    w: "writeSample DelayBuffer_ops [10, 20] True (1 / 2) (1 / 2) ?k = Inr (k', outs)"
    by blast
  have len: "length outs = 2" using writeSample_result(2) [OF w] by simp
  have t: "taps ?k ! 0 = (6, 4)" "taps ?k ! Suc 0 = (6, 4)"
    by (simp_all add: exampleKernel_taps)
  have sum2: "(\<Sum>index<2. f index) = f 0 + f (Suc 0)" for f :: "nat \<Rightarrow> real"
    by (simp add: eval_nat_numeral)
  have o0: "outs ! 0 = Some 7"
    using writeSample_reads [OF w, of 0]
    by (simp add: exampleKernel_calcTaps_fields sum2 t exampleDelayBuffer_read_4)
  have o1: "outs ! 1 = Some 11"
    using writeSample_reads [OF w, of 1]
    by (simp add: exampleKernel_calcTaps_fields sum2 t exampleDelayBuffer_read_6)
  have "outs = [Some 7, Some 11]"
    using len o0 o1 by (auto simp: list_eq_iff_nth_eq less_Suc_eq eval_nat_numeral)
  with w show ?thesis by blast
qed

subsection \<open>Per-block and per-sample rendering\<close>

text \<open>
  Claim C4. When no parameter ramp is in progress (and the depth and the mixes are in the
  range \<open>doRendering\<close> asserts), \<open>doRendering\<close> on a block of any length returns what the
  per-sample strategy returns on the same block and the same kernel: the same outputs,
  frame for frame and channel for channel, and the same kernel state afterwards. When
  there is a delay line for every channel of every frame, that common result is not an
  error and holds one output frame per input frame. Without the range assumption, whatever
  \<open>doRendering\<close> returns on the block, the per-sample strategy returns too.
\<close>

theorem per_block_equals_per_sample:
  "(noRampInProgress k \<longrightarrow> mixesInRange k \<longrightarrow>
      doRendering ops dops frames k = perSampleRendering ops dops frames k
      \<and> ((\<forall>ins \<in> set frames. length ins \<le> length (delayLines k)) \<longrightarrow>
           (\<exists>k' outs. doRendering ops dops frames k = Inr (k', outs) \<and> length outs = length frames)))
   \<and> (noRampInProgress k \<longrightarrow> doRendering ops dops frames k = Inr r \<longrightarrow>
        perSampleRendering ops dops frames k = Inr r)"
proof -
  have quiet: "\<not> isRamping k" if "noRampInProgress k"
    using that by (simp add: noRampInProgress_def settled_def isRamping_def)
  have one: "doRendering ops dops frames k = perSampleRendering ops dops frames k"
    if "length frames = 1"
  proof -
    from that obtain ins where "frames = [ins]" by (cases frames) auto
    then show ?thesis by (simp split: sum.splits)
  qed
  have first: "doRendering ops dops frames k = perSampleRendering ops dops frames k
      \<and> ((\<forall>ins \<in> set frames. length ins \<le> length (delayLines k)) \<longrightarrow>
           (\<exists>k' outs. doRendering ops dops frames k = Inr (k', outs) \<and> length outs = length frames))"
    if nr: "noRampInProgress k" and mr: "mixesInRange k"
  proof -
    from mr have rng: "0 \<le> Percentage_normalized (depth k)" "Percentage_normalized (depth k) \<le> 1"
      and mix: "0 \<le> Percentage_normalized (wetMix k)" "Percentage_normalized (wetMix k) \<le> 1"
        "0 \<le> Percentage_normalized (dryMix k)" "Percentage_normalized (dryMix k) \<le> 1"
      by (simp_all add: mixesInRange_def)
    have block: "doRendering ops dops frames k =
                   doRendering_loop ops dops (Milliseconds_get (delay k))
                     (calcDisplacement k (Milliseconds_get (delay k)) (Percentage_normalized (depth k)))
                     (Bool_get (odd90 k)) (Percentage_normalized (wetMix k))
                     (Percentage_normalized (dryMix k)) frames k"
      if "length frames \<noteq> 1"
      using that quiet [OF nr] rng mix by (simp add: doRendering_def Let_def)
    have eq: "doRendering ops dops frames k = perSampleRendering ops dops frames k"
    proof (cases "length frames = 1")
      case True
      then show ?thesis by (rule one)
    next
      case False
      then show ?thesis
        by (simp add: block doRendering_loop_perSample [OF nr rng])
    qed
    moreover have "\<exists>k' outs. doRendering ops dops frames k = Inr (k', outs) \<and> length outs = length frames"
      if "\<forall>ins \<in> set frames. length ins \<le> length (delayLines k)"
      by (rule doRendering_settled_total [OF nr mr that])
    ultimately show ?thesis by blast
  qed
  have second: "perSampleRendering ops dops frames k = Inr r"
    if nr: "noRampInProgress k" and ret: "doRendering ops dops frames k = Inr r"
  proof (cases "length frames = 1")
    case True
    with ret show ?thesis by (simp add: one)
  next
    case False
    with quiet [OF nr] ret
    have rng: "0 \<le> Percentage_normalized (depth k)" "Percentage_normalized (depth k) \<le> 1"
      and loop: "doRendering_loop ops dops (Milliseconds_get (delay k))
                   (calcDisplacement k (Milliseconds_get (delay k)) (Percentage_normalized (depth k)))
                   (Bool_get (odd90 k)) (Percentage_normalized (wetMix k))
                   (Percentage_normalized (dryMix k)) frames k = Inr r"
      by (simp_all add: doRendering_def Let_def split: if_splits)
    from loop show ?thesis by (simp add: doRendering_loop_perSample [OF nr rng])
  qed
  from first second show ?thesis by blast
qed

theorem per_block_equals_per_sample_witness:
  "noRampInProgress exampleKernel \<and> mixesInRange exampleKernel
   \<and> length [10, 20 :: real] \<le> length (delayLines exampleKernel)
   \<and> length [30, 40 :: real] \<le> length (delayLines exampleKernel)
   \<and> doRendering LFO_ops DelayBuffer_ops [[10, 20], [30, 40]] exampleKernel
       = perSampleRendering LFO_ops DelayBuffer_ops [[10, 20], [30, 40]] exampleKernel
   \<and> (\<exists>k' outs. doRendering LFO_ops DelayBuffer_ops [[10, 20], [30, 40]] exampleKernel = Inr (k', outs)
                 \<and> perSampleRendering LFO_ops DelayBuffer_ops [[10, 20], [30, 40]] exampleKernel
                     = Inr (k', outs)
                 \<and> length outs = 2)"
proof -
  note nr = exampleKernel_settled(1) and mr = exampleKernel_settled(2)
  have len: "length [10, 20 :: real] \<le> length (delayLines exampleKernel)"
    "length [30, 40 :: real] \<le> length (delayLines exampleKernel)"
    by (simp_all add: exampleKernel_fields)
  then have all: "\<forall>ins \<in> set [[10, 20], [30, 40 :: real]]. length ins \<le> length (delayLines exampleKernel)"
    by simp
  note t = per_block_equals_per_sample [of exampleKernel LFO_ops DelayBuffer_ops "[[10, 20], [30, 40]]"]
  from t nr mr all
  have eq: "doRendering LFO_ops DelayBuffer_ops [[10, 20], [30, 40]] exampleKernel
          = perSampleRendering LFO_ops DelayBuffer_ops [[10, 20], [30, 40]] exampleKernel"
    and "\<exists>k' outs. doRendering LFO_ops DelayBuffer_ops [[10, 20], [30, 40]] exampleKernel = Inr (k', outs)
                 \<and> length outs = length [[10, 20], [30, 40 :: real]]"
    by blast+
  then obtain k' outs where
    r: "doRendering LFO_ops DelayBuffer_ops [[10, 20], [30, 40]] exampleKernel = Inr (k', outs)"
    and l: "length outs = 2"
    by auto
  from per_block_equals_per_sample [of exampleKernel LFO_ops DelayBuffer_ops "[[10, 20], [30, 40]]"
      "(k', outs)"] nr r
  have "perSampleRendering LFO_ops DelayBuffer_ops [[10, 20], [30, 40]] exampleKernel = Inr (k', outs)"
    by blast
  with nr mr len eq r l show ?thesis by blast
qed

subsection \<open>Read before write\<close>

text \<open>
  Claim C5, as amended. In the N-oscillator kernel (\<open>writeSample\<close>) and in the
  single-oscillator kernel of \<open>Kernel.hpp\<close>, for every channel of a rendered frame the wet
  sample is read from the channel's delay line as it was before the frame (and does not
  depend on the frame's input sample), and the delay line afterwards is that line with the
  input sample written once, whatever the mixes, the taps and the displacement are; when
  there is a delay line for every channel the frame does render. In the kernel of
  \<open>src/unnamed/part_001\<close> the same holds when the displacement is not zero; when it is
  zero the delay lines are neither read nor written and the delayed sample is the input
  sample itself.
\<close>

theorem read_then_write_each_channel:
  "(writeSample dops ins odd90' wetMix' dryMix' k = Inr (k', outs) \<longrightarrow>
      (\<forall>c < length ins.
         outs ! c = map_option (\<lambda>w. wetMix' * w + dryMix' * ins ! c)
                      (generate dops k 0 (delayLines k ! c) (odd c))
         \<and> delayLines k' ! c = dl_write dops (ins ! c) (delayLines k ! c)))
   \<and> (length ins \<le> length (delayLines k) \<longrightarrow>
        (\<exists>k' outs. writeSample dops ins odd90' wetMix' dryMix' k = Inr (k', outs)))
   \<and> (Kernel_hpp_channels dops odd90' evenTap oddTap wetMix' dryMix' 0 ins dls = Inr (dls', outs') \<longrightarrow>
        (\<forall>c < length ins.
           outs' ! c = wetMix' * dl_read dops (dls ! c) (if odd c \<and> odd90' then oddTap else evenTap)
                       + dryMix' * ins ! c
           \<and> dls' ! c = dl_write dops (ins ! c) (dls ! c)))
   \<and> (displacement \<noteq> 0 \<longrightarrow>
        part_001_channels dops odd90' displacement evenTap oddTap wetMix' dryMix' 0 ins dls
          = Inr (dls', outs') \<longrightarrow>
        (\<forall>c < length ins.
           outs' ! c = wetMix' * dl_read dops (dls ! c) (if odd c \<and> odd90' then oddTap else evenTap)
                       + dryMix' * ins ! c
           \<and> dls' ! c = dl_write dops (ins ! c) (dls ! c)))
   \<and> part_001_channels dops odd90' 0 evenTap oddTap wetMix' dryMix' 0 ins dls
       = Inr (dls, map (\<lambda>inputSample. wetMix' * inputSample + dryMix' * inputSample) ins)"
proof (intro conjI impI allI)
  fix c
  assume w: "writeSample dops ins odd90' wetMix' dryMix' k = Inr (k', outs)" and c: "c < length ins"
  from writeSample_result(4) [OF w c]
  show "outs ! c = map_option (\<lambda>w. wetMix' * w + dryMix' * ins ! c)
                      (generate dops k 0 (delayLines k ! c) (odd c))"
    by (simp add: generate_ignores_input [of dops k "ins ! c" _ _ 0])
  from writeSample_result(5) [OF w c]
  show "delayLines k' ! c = dl_write dops (ins ! c) (delayLines k ! c)" .
next
  assume "length ins \<le> length (delayLines k)"
  then show "\<exists>k' outs. writeSample dops ins odd90' wetMix' dryMix' k = Inr (k', outs)"
    by (rule writeSample_total)
next
  fix c
  assume r: "Kernel_hpp_channels dops odd90' evenTap oddTap wetMix' dryMix' 0 ins dls = Inr (dls', outs')"
    and c: "c < length ins"
  from Kernel_hpp_channels_result [OF r] c
  show "outs' ! c = wetMix' * dl_read dops (dls ! c) (if odd c \<and> odd90' then oddTap else evenTap)
                       + dryMix' * ins ! c"
    and "dls' ! c = dl_write dops (ins ! c) (dls ! c)"
    by auto
next
  fix c
  assume d: "displacement \<noteq> 0"
    and r: "part_001_channels dops odd90' displacement evenTap oddTap wetMix' dryMix' 0 ins dls
          = Inr (dls', outs')"
    and c: "c < length ins"
  from part_001_channels_result [OF r d] c
  show "outs' ! c = wetMix' * dl_read dops (dls ! c) (if odd c \<and> odd90' then oddTap else evenTap)
                       + dryMix' * ins ! c"
    and "dls' ! c = dl_write dops (ins ! c) (dls ! c)"
    by auto
next
  show "part_001_channels dops odd90' 0 evenTap oddTap wetMix' dryMix' 0 ins dls
       = Inr (dls, map (\<lambda>inputSample. wetMix' * inputSample + dryMix' * inputSample) ins)"
    by (rule part_001_channels_zero)
qed

theorem read_then_write_each_channel_witness:
  "\<exists>k' outs dls' outs' dls'' outs''.
     length [10, 20 :: real] \<le> length (delayLines exampleKernel)
     \<and> writeSample DelayBuffer_ops [10, 20] True (1 / 2) (1 / 2) exampleKernel = Inr (k', outs)
     \<and> delayLines k' ! 1 = dl_write DelayBuffer_ops 20 exampleDelayBuffer
     \<and> Kernel_hpp_channels DelayBuffer_ops True 6 4 (1 / 2) (1 / 2) 0 [10, 20]
          [exampleDelayBuffer, exampleDelayBuffer] = Inr (dls', outs')
     \<and> outs' ! 1 = 12 \<and> dls' ! 1 = dl_write DelayBuffer_ops 20 exampleDelayBuffer
     \<and> (2 :: real) \<noteq> 0
     \<and> part_001_channels DelayBuffer_ops True 2 6 4 (1 / 2) (1 / 2) 0 [10, 20]
          [exampleDelayBuffer, exampleDelayBuffer] = Inr (dls'', outs'')
     \<and> outs'' ! 0 = 6 \<and> dls'' ! 0 = dl_write DelayBuffer_ops 10 exampleDelayBuffer"
proof -
  let ?dls = "[exampleDelayBuffer, exampleDelayBuffer]"
  have len: "length [10, 20 :: real] \<le> length (delayLines exampleKernel)"
    by (simp add: exampleKernel_fields)
  obtain dls' outs' where
    h: "Kernel_hpp_channels DelayBuffer_ops True 6 4 (1 / 2) (1 / 2) 0 [10, 20] ?dls = Inr (dls', outs')"
    by (simp add: Let_def)
  obtain dls'' outs'' where
    p: "part_001_channels DelayBuffer_ops True 2 6 4 (1 / 2) (1 / 2) 0 [10, 20] ?dls = Inr (dls'', outs'')"
    by (simp add: Let_def)
  note t = read_then_write_each_channel [of DelayBuffer_ops "[10, 20]" True "1 / 2" "1 / 2"
      exampleKernel _ _ 6 4 ?dls dls' outs' 2]
  from t len obtain k' outs where
    w: "writeSample DelayBuffer_ops [10, 20] True (1 / 2) (1 / 2) exampleKernel = Inr (k', outs)"
    by blast
  from read_then_write_each_channel [of DelayBuffer_ops "[10, 20]" True "1 / 2" "1 / 2"
      exampleKernel k' outs 6 4 ?dls dls' outs' 2] w
  have "\<forall>c < length [10, 20 :: real].
          delayLines k' ! c = dl_write DelayBuffer_ops ([10, 20] ! c) (delayLines exampleKernel ! c)"
    by blast
  then have 1: "delayLines k' ! 1 = dl_write DelayBuffer_ops 20 exampleDelayBuffer"
    by (simp add: exampleKernel_fields)
  from t h have "\<forall>c < length [10, 20 :: real].
           outs' ! c = 1 / 2 * dl_read DelayBuffer_ops (?dls ! c) (if odd c \<and> True then 4 else 6)
                       + 1 / 2 * [10, 20] ! c
           \<and> dls' ! c = dl_write DelayBuffer_ops ([10, 20] ! c) (?dls ! c)"
    by blast
  then have 2: "outs' ! 1 = 12" "dls' ! 1 = dl_write DelayBuffer_ops 20 exampleDelayBuffer"
    by (simp_all add: exampleDelayBuffer_read_4)
  from read_then_write_each_channel [of DelayBuffer_ops "[10, 20]" True "1 / 2" "1 / 2"
      exampleKernel k' outs 6 4 ?dls dls'' outs'' 2] p
  have "\<forall>c < length [10, 20 :: real].
           outs'' ! c = 1 / 2 * dl_read DelayBuffer_ops (?dls ! c) (if odd c \<and> True then 4 else 6)
                       + 1 / 2 * [10, 20] ! c
           \<and> dls'' ! c = dl_write DelayBuffer_ops ([10, 20] ! c) (?dls ! c)"
    by simp
  then have 3: "outs'' ! 0 = 6" "dls'' ! 0 = dl_write DelayBuffer_ops 10 exampleDelayBuffer"
    by (simp_all add: exampleDelayBuffer_read_6)
  have "(2 :: real) \<noteq> 0" by simp
  with len w 1 h 2 p 3 show ?thesis
    by (intro exI conjI) assumption+
qed

text \<open>
  The claim as stated fails on \<open>src/unnamed/part_001\<close>: with depth 0 the displacement is 0,
  the frame \<open>[10, 20]\<close> comes out as \<open>[10, 20]\<close> (both mixes one half, the delayed sample is
  the input sample) and both delay lines are as before, although a write would change them.
\<close>

theorem part_001_no_write_at_zero_displacement:
  "\<exists>m'. part_001_renderFrames LFO_ops DelayBuffer_ops [[10, 20]]
           (exampleMonoKernel\<lparr>depth := RampingParameter_init 0\<rparr>) = Inr (m', [[10, 20]])
        \<and> delayLines m' = [exampleDelayBuffer, exampleDelayBuffer]
        \<and> dl_write DelayBuffer_ops 10 exampleDelayBuffer \<noteq> exampleDelayBuffer"
  by (simp add: part_001_renderFrames_def part_001_displacement_def part_001_channels_zero
      exampleMonoKernel_def RampingParameter_init_def frameValue_def Let_def
      DelayBuffer_ops_def DelayBuffer_write_def exampleDelayBuffer_def)

subsection \<open>Parameter round trip\<close>

text \<open>
  Claim C6. For each of the six parameter addresses and every value of its legal domain, a
  change to that value with ramp duration 0 followed by a read of the parameter returns
  the value, in the domain in which it was supplied (exactly, hence within 1e-5).
\<close>

theorem parameter_round_trip:
  "legalValue address v \<longrightarrow>
     getParameterValue address (setRampedParameterValue ops address v 0 k) = v
     \<and> \<bar>getParameterValue address (setRampedParameterValue ops address v 0 k) - v\<bar> \<le> 1 / 100000"
  by (cases address)
    (auto simp: legalValue_def getParameterValue_def setRampedParameterValue_def setRate_def
      Milliseconds_set_def Milliseconds_get_def Percentage_set_def Percentage_get_def
      Bool_set_def Bool_get_def param_set_def param_get_def)

theorem parameter_round_trip_witness:
  "legalValue ParameterAddressDepth (27 / 2)
   \<and> getParameterValue ParameterAddressDepth
        (setRampedParameterValue LFO_ops ParameterAddressDepth (27 / 2) 0 exampleKernel) = 27 / 2
   \<and> legalValue ParameterAddressOdd90 1
   \<and> getParameterValue ParameterAddressOdd90
        (setRampedParameterValue LFO_ops ParameterAddressOdd90 1 0 exampleKernel) = 1
   \<and> legalValue ParameterAddressRate 30
   \<and> getParameterValue ParameterAddressRate
        (setRampedParameterValue LFO_ops ParameterAddressRate 30 0 exampleKernel) = 30"
proof -
  have l: "legalValue ParameterAddressDepth (27 / 2)" "legalValue ParameterAddressOdd90 1"
    "legalValue ParameterAddressRate 30"
    by (simp_all add: legalValue_def)
  from l parameter_round_trip [of ParameterAddressDepth "27 / 2" LFO_ops exampleKernel]
    parameter_round_trip [of ParameterAddressOdd90 1 LFO_ops exampleKernel]
    parameter_round_trip [of ParameterAddressRate 30 LFO_ops exampleKernel]
  show ?thesis by blast
qed

subsection \<open>Ramps\<close>

text \<open>
  Claim C7. After \<open>set(tgt, N)\<close> on a parameter whose value is \<open>current p0\<close>, the
  per-frame values at samples \<open>0..N-1\<close> are the linear interpolation between that value and
  the target; the value at sample \<open>N\<close> and at every later sample is the target exactly,
  and from sample \<open>N\<close> on the parameter is settled, so nothing is interpolated any more;
  the sequence of per-frame values (of any length \<open>n\<close>) is non-decreasing when the target
  is not below the start value and non-increasing when it is not above it.
\<close>

theorem ramp_linear_monotone_exact:
  "frameValues N (param_set tgt N p0)
     = map (\<lambda>i. current p0 + (tgt - current p0) * real i / real N) [0..<N]
   \<and> (\<forall>m. fst (frameValue (afterFrames (N + m) (param_set tgt N p0))) = tgt
          \<and> afterFrames (N + m) (param_set tgt N p0) = \<lparr>current = tgt, target = tgt, remaining = 0\<rparr>)
   \<and> (current p0 \<le> tgt \<longrightarrow> sorted_wrt (\<le>) (frameValues n (param_set tgt N p0)))
   \<and> (tgt \<le> current p0 \<longrightarrow> sorted_wrt (\<ge>) (frameValues n (param_set tgt N p0)))"
proof (intro conjI allI impI)
  let ?p = "param_set tgt N p0"
  show "frameValues N ?p = map (\<lambda>i. current p0 + (tgt - current p0) * real i / real N) [0..<N]"
  proof (cases "N = 0")
    case True
    then show ?thesis by simp
  next
    case False
    then have p: "?p = p0\<lparr>target := tgt, remaining := N\<rparr>" by (simp add: param_set_def)
    have "current (afterFrames i ?p) = current p0 + (tgt - current p0) * real i / real N"
      if "i < N" for i
    proof -
      have "i \<le> remaining ?p" using that by (simp add: p)
      from afterFrames_ramp [OF this] show ?thesis by (simp add: p)
    qed
    then show ?thesis by (simp add: frameValues_map)
  qed
  have settled_after: "afterFrames (N + m) ?p = \<lparr>current = tgt, target = tgt, remaining = 0\<rparr>" for m
    by (simp add: afterFrames_add afterFrames_param_set afterFrames_settled)
  show "fst (frameValue (afterFrames (N + m) ?p)) = tgt" for m
    by (simp add: settled_after)
  show "afterFrames (N + m) ?p = \<lparr>current = tgt, target = tgt, remaining = 0\<rparr>" for m
    by (rule settled_after)
  show "sorted_wrt (\<le>) (frameValues n ?p)" if "current p0 \<le> tgt"
  proof -
    have "current ?p \<le> target ?p" using that by (simp add: param_set_def)
    from frameValues_sorted_up [OF this] show ?thesis by simp
  qed
  show "sorted_wrt (\<ge>) (frameValues n ?p)" if "tgt \<le> current p0"
  proof -
    have "target ?p \<le> current ?p" using that by (simp add: param_set_def)
    from frameValues_sorted_down [OF this] show ?thesis by simp
  qed
qed

theorem ramp_linear_monotone_exact_witness:
  "frameValues 4 (param_set 1 4 (RampingParameter_init 0)) = [0, 1 / 4, 1 / 2, 3 / 4]
   \<and> fst (frameValue (afterFrames 4 (param_set 1 4 (RampingParameter_init 0)))) = 1
   \<and> (0::real) \<le> 1
   \<and> sorted_wrt (\<le>) (frameValues 6 (param_set 1 4 (RampingParameter_init 0)))
   \<and> frameValues 6 (param_set 1 4 (RampingParameter_init 0)) = [0, 1 / 4, 1 / 2, 3 / 4, 1, 1]"
proof -
  have c: "current (RampingParameter_init 0) = 0" by (simp add: RampingParameter_init_def)
  have e: "frameValues 6 (param_set 1 4 (RampingParameter_init 0)) = [0, 1 / 4, 1 / 2, 3 / 4, 1, 1]"
    by (simp add: eval_nat_numeral param_set_def RampingParameter_init_def frameValue_def)
  from ramp_linear_monotone_exact [of 4 1 "RampingParameter_init 0" 6]
  have 1: "frameValues 4 (param_set 1 4 (RampingParameter_init 0))
             = map (\<lambda>i. 0 + (1 - 0) * real i / real 4) [0..<4]"
    and 2: "fst (frameValue (afterFrames (4 + 0) (param_set 1 4 (RampingParameter_init 0)))) = 1"
    and 3: "sorted_wrt (\<le>) (frameValues 6 (param_set 1 4 (RampingParameter_init 0)))"
    by (simp_all only: c) simp_all
  have "map (\<lambda>i. 0 + (1 - 0) * real i / real 4) [0..<4] = [0, 1 / 4, 1 / 2, 3 / 4]"
    by (simp add: upt_conv_Cons)
  with 1 2 3 e show ?thesis by simp
qed

subsection \<open>Rendering stopped\<close>



subsection \<open>Phase offsets after initialize\<close>

text \<open>
  Claim C9 at a failing input: a kernel constructed with 10 oscillators and initialised for
  2 channels at 44100 Hz. The argument of \<open>setPhase\<close> is the integer quotient
  \<open>index / lfos_.size()\<close>, which is 0 for each of the 50 oscillators: oscillators 1 and 9
  have phase 0, where the claim has 1/10 and 9/10.
\<close>

theorem initialize_sets_every_phase_to_zero:
  "\<exists>k. (Kernel_new LFO_ops ''blah'' 10 :: error + (LFO, DelayBuffer) Kernel) = Inr k
       \<and> phase (lfos (initialize LFO_ops DelayBuffer_ops 2 44100 50 k) ! 1) = 0
       \<and> phase (lfos (initialize LFO_ops DelayBuffer_ops 2 44100 50 k) ! 9) = 0"
proof -
  obtain k :: "(LFO, DelayBuffer) Kernel" where
    k: "Kernel_new LFO_ops ''blah'' 10 = Inr k" "Kernel_wf k"
    using Kernel_new_ok [of 10 LFO_ops "''blah''"] by (auto simp: MAX_LFOS_def)
  have len: "length (lfos k) = 50" using k(2) by (simp add: Kernel_wf_def MAX_LFOS_def)
  have "phase (lfos (initialize LFO_ops DelayBuffer_ops 2 44100 50 k) ! index) = 0"
    if "index < 50" for index
    using that len by (simp add: initialize_lfos) (simp add: LFO_ops_def)
  then show ?thesis using k(1) by simp
qed

subsection \<open>The oscillator count\<close>

text \<open>
  Claim C10. The constructor fails exactly when the count exceeds \<open>MAX_LFOS = 50\<close>, so
  a count of 0 is accepted; \<open>generate\<close> returns the sum of the \<open>lfoCount_\<close> reads divided
  by \<open>lfoCount_\<close> when the count is positive, and the result of a division by zero when
  it is 0; with a count of 0 every sample of every frame \<open>writeSample\<close> renders is such a
  result.
\<close>

theorem lfoCount_zero_divides_by_zero:
  fixes ops :: "'lfo LFO_ops" and k :: "('lfo, 'dl) Kernel"
  shows
  "MAX_LFOS = 50
   \<and> ((Kernel_new ops nm n :: error + ('lfo, 'dl) Kernel) = Inl AssertionFailed \<longleftrightarrow> MAX_LFOS < n)
   \<and> (\<exists>k0. (Kernel_new ops nm 0 :: error + ('lfo, 'dl) Kernel) = Inr k0 \<and> lfoCount k0 = 0)
   \<and> (0 < lfoCount k \<longrightarrow>
        generate dops k inputSample delayLine isEven =
          Some ((\<Sum>index<lfoCount k.
                   dl_read dops delayLine
                     (if isEven then fst (taps k ! index) else snd (taps k ! index)))
                / real (lfoCount k)))
   \<and> (lfoCount k = 0 \<longrightarrow> generate dops k inputSample delayLine isEven = None)
   \<and> (lfoCount k = 0 \<longrightarrow> writeSample dops ins odd90' wetMix' dryMix' k = Inr (k', outs) \<longrightarrow>
        length outs = length ins \<and> (\<forall>c < length ins. outs ! c = None))"
proof (intro conjI impI allI)
  show "MAX_LFOS = 50" by (simp add: MAX_LFOS_def)
  show "((Kernel_new ops nm n :: error + ('lfo, 'dl) Kernel) = Inl AssertionFailed) = (MAX_LFOS < n)"
    by (auto simp: Kernel_new_def)
  show "\<exists>k0. (Kernel_new ops nm 0 :: error + ('lfo, 'dl) Kernel) = Inr k0 \<and> lfoCount k0 = 0"
    by (simp add: Kernel_new_def)
  show "generate dops k inputSample delayLine isEven =
          Some ((\<Sum>index<lfoCount k.
                   dl_read dops delayLine
                     (if isEven then fst (taps k ! index) else snd (taps k ! index)))
                / real (lfoCount k))" if "0 < lfoCount k"
    using that by (simp add: generate_sum)
  show "generate dops k inputSample delayLine isEven = None" if "lfoCount k = 0"
    using that by (simp add: generate_sum)
next
  assume z: "lfoCount k = 0" and w: "writeSample dops ins odd90' wetMix' dryMix' k = Inr (k', outs)"
  show "length outs = length ins" by (rule writeSample_result(2) [OF w])
  fix c assume "c < length ins"
  from writeSample_result(4) [OF w this] z show "outs ! c = None"
    by (simp add: generate_sum)
qed

theorem lfoCount_zero_divides_by_zero_witness:
  "\<exists>k0 k' outs.
     (Kernel_new LFO_ops ''blah'' 0 :: error + (LFO, DelayBuffer) Kernel) = Inr k0
     \<and> lfoCount (initialize LFO_ops DelayBuffer_ops 2 44100 50 k0) = 0
     \<and> generate DelayBuffer_ops (initialize LFO_ops DelayBuffer_ops 2 44100 50 k0) 10
          exampleDelayBuffer True = None
     \<and> writeSample DelayBuffer_ops [10, 20] True (1 / 2) (1 / 2)
          (initialize LFO_ops DelayBuffer_ops 2 44100 50 k0) = Inr (k', outs)
     \<and> outs = [None, None]
     \<and> 0 < lfoCount exampleKernel
     \<and> generate DelayBuffer_ops exampleKernel 10 exampleDelayBuffer True = Some 8
     \<and> (Kernel_new LFO_ops ''blah'' 51 :: error + (LFO, DelayBuffer) Kernel) = Inl AssertionFailed"
proof -
  obtain k0 :: "(LFO, DelayBuffer) Kernel" where
    k0: "Kernel_new LFO_ops ''blah'' 0 = Inr k0" "lfoCount k0 = 0"
    using Kernel_new_ok [of 0 LFO_ops "''blah''"] by auto
  let ?k = "initialize LFO_ops DelayBuffer_ops 2 44100 50 k0"
  have z: "lfoCount ?k = 0" by (simp add: initialize_fields k0)
  have "length [10, 20 :: real] \<le> length (delayLines ?k)" by (simp add: initialize_fields)
  from writeSample_total [OF this] obtain k' outs where
    w: "writeSample DelayBuffer_ops [10, 20] True (1 / 2) (1 / 2) ?k = Inr (k', outs)" by blast
  note t = lfoCount_zero_divides_by_zero [of LFO_ops "''blah''" 51 ?k DelayBuffer_ops 10
      exampleDelayBuffer True "[10, 20]" True "1 / 2" "1 / 2" k' outs]
  from t z have g: "generate DelayBuffer_ops ?k 10 exampleDelayBuffer True = None" by blast
  from t z w have "length outs = length [10, 20 :: real]"
    and "\<forall>c < length [10, 20 :: real]. outs ! c = None" by blast+
  then have o: "outs = [None, None]"
    by (auto simp: list_eq_iff_nth_eq less_Suc_eq)
  from t have f: "(Kernel_new LFO_ops ''blah'' 51 :: error + (LFO, DelayBuffer) Kernel) = Inl AssertionFailed"
    by (simp add: MAX_LFOS_def)
  have p: "0 < lfoCount exampleKernel" by (simp add: exampleKernel_fields)
  have sum2: "(\<Sum>index<2. f index) = f 0 + f (Suc 0)" for f :: "nat \<Rightarrow> real"
    by (simp add: eval_nat_numeral)
  have r0: "dl_read DelayBuffer_ops exampleDelayBuffer 0 = 8"
    by (simp add: DelayBuffer_ops_def DelayBuffer_read_def DelayBuffer_at_def
        exampleDelayBuffer_def Let_def)
  have tp: "taps exampleKernel ! 0 = (0, 0)" "taps exampleKernel ! Suc 0 = (0, 0)"
    by (simp_all add: exampleKernel_def MAX_LFOS_def)
  from lfoCount_zero_divides_by_zero [of LFO_ops "''blah''" 51 exampleKernel DelayBuffer_ops 10
      exampleDelayBuffer True "[10, 20]" True "1 / 2" "1 / 2" k' outs] p
  have "generate DelayBuffer_ops exampleKernel 10 exampleDelayBuffer True
          = Some ((\<Sum>index<lfoCount exampleKernel.
                   dl_read DelayBuffer_ops exampleDelayBuffer
                     (if True then fst (taps exampleKernel ! index) else snd (taps exampleKernel ! index)))
                / real (lfoCount exampleKernel))"
    by blast
  then have g8: "generate DelayBuffer_ops exampleKernel 10 exampleDelayBuffer True = Some 8"
    by (simp add: exampleKernel_fields sum2 tp r0)
  from k0(1) z g w o p g8 f show ?thesis
    by (intro exI conjI) assumption+
qed

end
